theory Spec2Isabelle
  imports Complex_Main "HOL-Library.Word" "HOL-Library.Multiset" "HOL-Library.Product_Lexorder"
begin

section \<open>Primal grid construction for the FEM solver (fem_geometry_structure.cpp)\<close>

text \<open>
  The embedding follows \<^verbatim>\<open>Common/src/fem_geometry_structure.cpp\<close>.
  Conventions:
  \<^item> \<^verbatim>\<open>long\<close> and \<^verbatim>\<open>unsigned long\<close> are \<open>64 word\<close> (the conversion between the two
    keeps the bits; \<open><\<close> on words is the unsigned comparison, \<open><s\<close> the signed one);
    \<^verbatim>\<open>short\<close> and \<^verbatim>\<open>unsigned short\<close> are \<open>16 word\<close>;
  \<^item> positions in vectors and loop counters are \<open>nat\<close>;
  \<^item> \<^verbatim>\<open>su2double\<close> is \<open>real\<close>: the arithmetic is exact, rounding is not modelled;
  \<^item> a run ends normally (\<open>Inr\<close>), or is stopped after a diagnostic by
    \<^verbatim>\<open>exit(EXIT_FAILURE)\<close> / \<^verbatim>\<open>MPI_Abort\<close> (\<open>Inl (Fatal msg)\<close>), or performs an
    operation to which C++ gives no meaning, such as dereferencing the \<^verbatim>\<open>end()\<close>
    iterator of a map or subscripting a vector outside its size (\<open>Inl Undefined\<close>).
\<close>

type_synonym long = "64 word"
type_synonym ulong = "64 word"
type_synonym short = "16 word"

datatype failure = Fatal string | Undefined

subsection \<open>The algorithms of the C++ standard library that the constructor calls\<close>

text \<open>
  \<^verbatim>\<open>std::sort\<close> with the element type's \<^verbatim>\<open>operator<\<close>. The standard fixes the result
  only as a permutation of the input in which no element is less than an earlier one;
  the insertion sort below is one such algorithm (it keeps elements that compare
  equivalent in their order).
\<close>

fun std_sort_insert :: "('a \<Rightarrow> 'a \<Rightarrow> bool) \<Rightarrow> 'a \<Rightarrow> 'a list \<Rightarrow> 'a list" where
  "std_sort_insert lt x [] = [x]"
| "std_sort_insert lt x (y # ys) =
     (if lt y x then y # std_sort_insert lt x ys else x # y # ys)"

definition std_sort :: "('a \<Rightarrow> 'a \<Rightarrow> bool) \<Rightarrow> 'a list \<Rightarrow> 'a list" where
  "std_sort lt xs = foldr (std_sort_insert lt) xs []"

text \<open>
  \<^verbatim>\<open>std::unique\<close> followed by \<^verbatim>\<open>erase\<close> of the tail: of every run of consecutive
  elements that \<^verbatim>\<open>operator==\<close> calls equal, the first is kept.
\<close>

fun std_unique :: "('a \<Rightarrow> 'a \<Rightarrow> bool) \<Rightarrow> 'a list \<Rightarrow> 'a list" where
  "std_unique eq [] = []"
| "std_unique eq [x] = [x]"
| "std_unique eq (x # y # xs) =
     (if eq x y then std_unique eq (x # xs) else x # std_unique eq (y # xs))"

text \<open>
  \<^verbatim>\<open>std::lower_bound\<close> on the range of \<open>len\<close> elements that starts at position
  \<open>first\<close>, by bisection, and \<^verbatim>\<open>std::binary_search\<close> on the whole vector.
\<close>

function std_lower_bound ::
  "('a \<Rightarrow> 'a \<Rightarrow> bool) \<Rightarrow> 'a list \<Rightarrow> 'a \<Rightarrow> nat \<Rightarrow> nat \<Rightarrow> nat" where
  "std_lower_bound lt xs v first len =
     (if len = 0 then first
      else let half = len div 2; middle = first + half
           in if lt (xs ! middle) v
              then std_lower_bound lt xs v (middle + 1) (len - half - 1)
              else std_lower_bound lt xs v first half)"
  by pat_completeness auto
termination
  by (relation "measure (\<lambda>(lt, xs, v, first, len). len)") auto

declare std_lower_bound.simps [simp del]

definition std_binary_search :: "('a \<Rightarrow> 'a \<Rightarrow> bool) \<Rightarrow> 'a list \<Rightarrow> 'a \<Rightarrow> bool" where
  "std_binary_search lt xs v =
     (let i = std_lower_bound lt xs v 0 (length xs)
      in i \<noteq> length xs \<and> \<not> lt v (xs ! i))"

subsection \<open>unsignedLong2T\<close>

text \<open>
  Modelled from the spec: the class \<^verbatim>\<open>unsignedLong2T\<close> is declared in
  \<^verbatim>\<open>fem_geometry_structure.hpp\<close>, which is not among the sources. It is a pair of
  unsigned longs \<^verbatim>\<open>long0\<close>, \<^verbatim>\<open>long1\<close>; two pairs are equal when both
  components are, and the order used for sorting compares \<^verbatim>\<open>long0\<close> first and
  \<^verbatim>\<open>long1\<close> next.
\<close>

record unsignedLong2T =
  long0 :: ulong
  long1 :: ulong

definition unsignedLong2T_less :: "unsignedLong2T \<Rightarrow> unsignedLong2T \<Rightarrow> bool" where
  "unsignedLong2T_less a b =
     (if long0 a \<noteq> long0 b then long0 a < long0 b
      else if long1 a \<noteq> long1 b then long1 a < long1 b
      else False)"

definition unsignedLong2T_eq :: "unsignedLong2T \<Rightarrow> unsignedLong2T \<Rightarrow> bool" where
  "unsignedLong2T_eq a b =
     (if long0 a \<noteq> long0 b then False
      else if long1 a \<noteq> long1 b then False
      else True)"

subsection \<open>su2double\<close>

text \<open>
  \<^verbatim>\<open>su2double\<close> is the double precision floating point number of the machine. Its
  finite values are real numbers, and a value is modelled by the real number it is;
  comparison, \<^verbatim>\<open>min\<close> and \<^verbatim>\<open>fabs\<close> of such values are exact. A subtraction is not:
  its result is the exact difference rounded to the nearest number with a significand
  of 53 bits (to the nearest multiple of the smallest subnormal number near zero),
  a tie going to the even significand. \<open>su2double_ulp x\<close> is the distance of
  neighbouring numbers at the magnitude of \<open>x\<close>. Infinities and NaN are left out: the
  coordinates and tolerances are finite, and a difference too large in magnitude for
  the format, which the machine turns into an infinity, stays a number above every
  finite tolerance here, so that the test it enters has the same outcome.
\<close>

definition round_ties_even :: "real \<Rightarrow> int" where
  "round_ties_even y =
     (let f = \<lfloor>y\<rfloor> in
      if y - of_int f < 1 / 2 then f
      else if y - of_int f > 1 / 2 then f + 1
      else if even f then f else f + 1)"

definition su2double_ulp :: "real \<Rightarrow> real" where
  "su2double_ulp x = 2 powi (max (\<lfloor>log 2 \<bar>x\<bar>\<rfloor> - 52) (- 1074))"

definition su2double_round :: "real \<Rightarrow> real" where
  "su2double_round x =
     sgn x * (of_int (round_ties_even (\<bar>x\<bar> / su2double_ulp x)) * su2double_ulp x)"

definition su2double_sub :: "real \<Rightarrow> real \<Rightarrow> real" where
  "su2double_sub c d = su2double_round (c - d)"

subsection \<open>CPointCompare\<close>

text \<open>The class holds \<^verbatim>\<open>nDim\<close>, \<^verbatim>\<open>nodeID\<close>, \<^verbatim>\<open>tolForMatching\<close> and the array
  \<^verbatim>\<open>su2double coor[3]\<close>; the array is the list \<open>coor\<close>.\<close>

record CPointCompare =
  nDim :: nat
  nodeID :: ulong
  tolForMatching :: real
  coor :: "real list"

text \<open>The loop of \<^verbatim>\<open>CPointCompare::operator<\<close>, entered at coordinate \<open>l\<close>. The
  test is on the difference as the machine computes it.\<close>

function CPointCompare_loop :: "real \<Rightarrow> nat \<Rightarrow> real list \<Rightarrow> real list \<Rightarrow> nat \<Rightarrow> bool" where
  "CPointCompare_loop tol n c d l =
     (if l < n then
        (if \<bar>su2double_sub (c ! l) (d ! l)\<bar> > tol then c ! l < d ! l
         else CPointCompare_loop tol n c d (Suc l))
      else False)"
  by pat_completeness auto
termination
  by (relation "measure (\<lambda>(tol, n, c, d, l). n - l)") auto

declare CPointCompare_loop.simps [simp del]

definition CPointCompare_less :: "CPointCompare \<Rightarrow> CPointCompare \<Rightarrow> bool" where
  "CPointCompare_less a b =
     (if nDim a \<noteq> nDim b then nDim a < nDim b
      else CPointCompare_loop (min (tolForMatching a) (tolForMatching b))
             (nDim a) (CPointCompare.coor a) (CPointCompare.coor b) 0)"

text \<open>An object is well formed when its dimension fits the array of three coordinates.\<close>

definition CPointCompare_wf :: "CPointCompare \<Rightarrow> bool" where
  "CPointCompare_wf a = (nDim a \<le> 3 \<and> length (CPointCompare.coor a) = 3)"

text \<open>The reading of the specification: plain lexicographic comparison of the first
  \<open>n\<close> coordinates, except that two points all of whose coordinates lie within the
  tolerance are not ordered.\<close>

fun lexicographic_less :: "nat \<Rightarrow> real list \<Rightarrow> real list \<Rightarrow> nat \<Rightarrow> bool" where
  "lexicographic_less 0 c d l = False"
| "lexicographic_less (Suc k) c d l =
     (if c ! l \<noteq> d ! l then c ! l < d ! l else lexicographic_less k c d (Suc l))"

definition all_within_tol :: "CPointCompare \<Rightarrow> CPointCompare \<Rightarrow> bool" where
  "all_within_tol a b =
     list_all (\<lambda>l. \<bar>CPointCompare.coor a ! l - CPointCompare.coor b ! l\<bar> \<le> min (tolForMatching a) (tolForMatching b))
       [0..<nDim a]"

text \<open>The same condition on the differences that the code computes.\<close>

definition computed_within_tol :: "CPointCompare \<Rightarrow> CPointCompare \<Rightarrow> bool" where
  "computed_within_tol a b =
     list_all (\<lambda>l. \<bar>su2double_sub (CPointCompare.coor a ! l) (CPointCompare.coor b ! l)\<bar>
                    \<le> min (tolForMatching a) (tolForMatching b))
       [0..<nDim a]"

definition spec_less :: "CPointCompare \<Rightarrow> CPointCompare \<Rightarrow> bool" where
  "spec_less a b =
     (if all_within_tol a b then False
      else lexicographic_less (nDim a) (CPointCompare.coor a) (CPointCompare.coor b) 0)"

subsection \<open>CPointFEM\<close>

text \<open>A mesh point: its global ID, the periodic index to the donor (\<open>-1\<close> when the point
  is not periodic) and the array \<^verbatim>\<open>su2double coor[3]\<close>.\<close>

record CPointFEM =
  globalID :: ulong
  periodIndexToDonor :: short
  coor :: "real list"

text \<open>\<^verbatim>\<open>CPointFEM::operator<\<close>: the periodic index (a signed short) first, then the
  global ID (an unsigned long).\<close>

definition CPointFEM_less :: "CPointFEM \<Rightarrow> CPointFEM \<Rightarrow> bool" where
  "CPointFEM_less a b =
     (if CPointFEM.periodIndexToDonor a \<noteq> CPointFEM.periodIndexToDonor b
      then sint (CPointFEM.periodIndexToDonor a) < sint (CPointFEM.periodIndexToDonor b)
      else globalID a < globalID b)"

text \<open>\<^verbatim>\<open>CPointFEM::operator==\<close>: the coordinates take no part.\<close>

definition CPointFEM_eq :: "CPointFEM \<Rightarrow> CPointFEM \<Rightarrow> bool" where
  "CPointFEM_eq a b =
     (globalID a = globalID b \<and> CPointFEM.periodIndexToDonor a = CPointFEM.periodIndexToDonor b)"

subsection \<open>Removing the double entities\<close>

text \<open>The three statements \<^verbatim>\<open>sort\<close>, \<^verbatim>\<open>unique\<close>, \<^verbatim>\<open>erase\<close> applied to
  \<^verbatim>\<open>meshPoints\<close> and \<^verbatim>\<open>haloPoints\<close>, and to \<^verbatim>\<open>haloElements\<close>.\<close>

definition dedupPoints :: "CPointFEM list \<Rightarrow> CPointFEM list" where
  "dedupPoints ps = std_unique CPointFEM_eq (std_sort CPointFEM_less ps)"

definition dedupHaloElements :: "unsignedLong2T list \<Rightarrow> unsignedLong2T list" where
  "dedupHaloElements hs = std_unique unsignedLong2T_eq (std_sort unsignedLong2T_less hs)"

text \<open>The keys under which the two orders are linear.\<close>

definition CPointFEM_key :: "CPointFEM \<Rightarrow> int \<times> ulong" where
  "CPointFEM_key p = (sint (CPointFEM.periodIndexToDonor p), globalID p)"

definition unsignedLong2T_key :: "unsignedLong2T \<Rightarrow> ulong \<times> ulong" where
  "unsignedLong2T_key h = (long0 h, long1 h)"

subsection \<open>Volume elements, surface elements and the elements of the original grid\<close>

text \<open>
  The classes \<^verbatim>\<open>CVolumeElementFEM\<close> and \<^verbatim>\<open>CSurfaceElementFEM\<close> with the members the
  constructor reads and writes. The counts and polynomial degrees are unsigned
  shorts, the periodic index is a (signed) short, the IDs are unsigned longs.
\<close>

record CVolumeElementFEM =
  elemIsOwned :: bool
  rankOriginal :: long
  periodIndexToDonor :: short
  VTK_Type :: short
  nPolyGrid :: short
  nPolySol :: short
  nDOFsGrid :: short
  nDOFsSol :: short
  nFaces :: short
  JacIsConsideredConstant :: bool
  elemIDGlobal :: ulong
  offsetDOFsSolGlobal :: ulong
  nodeIDsGrid :: "ulong list"
  JacFacesIsConsideredConstant :: "bool list"

record CSurfaceElementFEM =
  VTK_Type :: short
  nPolyGrid :: short
  nDOFsGrid :: short
  volElemID :: ulong
  boundElemIDGlobal :: ulong
  nodeIDsGrid :: "ulong list"

text \<open>
  A boundary element of the original partitioning (\<^verbatim>\<open>geometry->bound[iMarker][i]\<close>),
  seen through the accessors the constructor calls.
\<close>

record CPrimalGridBoundFEM =
  GetVTK_Type :: short
  GetNPolyGrid :: short
  GetNDOFsGrid :: short
  GetDomainElement :: ulong
  GetGlobalElemID :: ulong
  GetNode :: "nat \<Rightarrow> long"

text \<open>
  An element of the original partitioning (\<^verbatim>\<open>geometry->elem[i]\<close>), seen through the
  accessors the constructor calls; \<^verbatim>\<open>GetNode(j)\<close>, \<^verbatim>\<open>GetNeighbor_Elements(j)\<close>,
  \<^verbatim>\<open>GetPeriodicIndex(j)\<close> and \<^verbatim>\<open>GetJacobianConstantFace(j)\<close> are functions of the
  position \<open>j\<close>.
\<close>

record CPrimalGridFEM =
  GetColor :: long
  GetVTK_Type :: short
  GetNPolyGrid :: short
  GetNPolySol :: short
  GetNDOFsGrid :: short
  GetNDOFsSol :: short
  GetnFaces :: short
  GetJacobianConsideredConstant :: bool
  GetGlobalElemID :: ulong
  GetGlobalOffsetDOFsSol :: ulong
  GetNode :: "nat \<Rightarrow> long"
  GetNeighbor_Elements :: "nat \<Rightarrow> long"
  GetPeriodicIndex :: "nat \<Rightarrow> short"
  GetJacobianConstantFace :: "nat \<Rightarrow> bool"

subsection \<open>Step 2: the maps from global element IDs to positions in volElem\<close>

text \<open>
  What the constructor holds after it has built the two maps and resized
  \<^verbatim>\<open>volElem\<close>. Positions in \<^verbatim>\<open>volElem\<close> are natural numbers. The elements that
  \<^verbatim>\<open>resize\<close> creates are copies of the default-constructed element \<open>dflt\<close>; the
  constructor of the class is in the header, so \<open>dflt\<close> is a parameter.
\<close>

record volume_layout =
  nVolElemOwned :: nat
  nVolElemTot :: nat
  mapGlobalElemIDToInd :: "ulong \<rightharpoonup> nat"
  mapGlobalHaloElemToInd :: "unsignedLong2T \<rightharpoonup> nat"
  volElem :: "CVolumeElementFEM list"

definition allocateVolumeElements ::
  "CVolumeElementFEM \<Rightarrow> ulong list \<Rightarrow> unsignedLong2T list \<Rightarrow> volume_layout" where
  "allocateVolumeElements dflt globalElemID haloElements =
     (let nOwned = length globalElemID;
          nTot = nOwned + length haloElements
      in \<lparr>nVolElemOwned = nOwned,
          nVolElemTot = nTot,
          mapGlobalElemIDToInd =
            fold (\<lambda>i m. m(globalElemID ! i \<mapsto> i)) [0..<nOwned] Map.empty,
          mapGlobalHaloElemToInd =
            fold (\<lambda>i m. m(haloElements ! i \<mapsto> nOwned + i)) [0..<length haloElements]
              Map.empty,
          volElem = replicate nTot dflt\<rparr>)"

text \<open>An element with every member zero or empty, for the examples.\<close>

definition zeroVolumeElement :: CVolumeElementFEM where
  "zeroVolumeElement =
     \<lparr>elemIsOwned = False, rankOriginal = 0, periodIndexToDonor = 0,
      CVolumeElementFEM.VTK_Type = 0, CVolumeElementFEM.nPolyGrid = 0, nPolySol = 0,
      CVolumeElementFEM.nDOFsGrid = 0, nDOFsSol = 0, nFaces = 0,
      JacIsConsideredConstant = False, elemIDGlobal = 0, offsetDOFsSolGlobal = 0,
      CVolumeElementFEM.nodeIDsGrid = [], JacFacesIsConsideredConstant = []\<rparr>"

subsection \<open>Step 1: the buffers of the first exchange\<close>

text \<open>Reading position \<open>i\<close> of a vector: outside the vector the subscript is undefined.\<close>

definition rd :: "'a list \<Rightarrow> nat \<Rightarrow> failure + 'a" where
  "rd buf i = (if i < length buf then Inr (buf ! i) else Inl Undefined)"

text \<open>
  What the loop over the local elements appends to \<^verbatim>\<open>shortSendBuf[ind]\<close> and to
  \<^verbatim>\<open>longSendBuf[ind]\<close> for one element.
\<close>

definition packElementShort :: "CPrimalGridFEM \<Rightarrow> short list" where
  "packElementShort e =
     [GetVTK_Type e, GetNPolyGrid e, GetNPolySol e, GetNDOFsGrid e, GetNDOFsSol e,
      GetnFaces e, of_bool (GetJacobianConsideredConstant e)]
     @ concat (map (\<lambda>j. [GetPeriodicIndex e j, of_bool (GetJacobianConstantFace e j)])
         [0..<unat (GetnFaces e)])"

definition packElementLong :: "CPrimalGridFEM \<Rightarrow> long list" where
  "packElementLong e =
     [GetGlobalElemID e, GetGlobalOffsetDOFsSol e]
     @ map (GetNode e) [0..<unat (GetNDOFsGrid e)]
     @ map (GetNeighbor_Elements e) [0..<unat (GetnFaces e)]"

text \<open>
  The two buffers for one destination rank when the loop over the elements is done:
  \<open>es\<close> are the elements with the colour of that rank, in the order of the loop; the
  long buffer starts with their number. The node IDs and the boundary elements are
  appended to the buffers afterwards.
\<close>

definition packElementsShort :: "CPrimalGridFEM list \<Rightarrow> short list" where
  "packElementsShort es = concat (map packElementShort es)"

definition packElementsLong :: "CPrimalGridFEM list \<Rightarrow> long list" where
  "packElementsLong es = of_nat (length es) # concat (map packElementLong es)"

text \<open>
  After the elements the sending rank appends to the long buffer the number of the
  nodes of these elements and their IDs (the coordinates go to the buffer of doubles),
  and then, marker by marker, the number of boundary elements of the marker that
  belong to the destination rank and their data; a boundary element adds three shorts
  to the short buffer.
\<close>

definition packNodesLong :: "(long \<times> real list) list \<Rightarrow> long list" where
  "packNodesLong nodes = of_nat (length nodes) # map fst nodes"

definition packNodesDouble :: "(long \<times> real list) list \<Rightarrow> real list" where
  "packNodesDouble nodes = concat (map snd nodes)"

definition packBoundShort :: "CPrimalGridBoundFEM \<Rightarrow> short list" where
  "packBoundShort b =
     [CPrimalGridBoundFEM.GetVTK_Type b, CPrimalGridBoundFEM.GetNPolyGrid b,
      CPrimalGridBoundFEM.GetNDOFsGrid b]"

definition packBoundLong :: "CPrimalGridBoundFEM \<Rightarrow> long list" where
  "packBoundLong b =
     [GetDomainElement b, CPrimalGridBoundFEM.GetGlobalElemID b]
     @ map (CPrimalGridBoundFEM.GetNode b) [0..<unat (CPrimalGridBoundFEM.GetNDOFsGrid b)]"

definition packMarkersShort :: "CPrimalGridBoundFEM list list \<Rightarrow> short list" where
  "packMarkersShort bounds = concat (map (\<lambda>bs. concat (map packBoundShort bs)) bounds)"

definition packMarkersLong :: "CPrimalGridBoundFEM list list \<Rightarrow> long list" where
  "packMarkersLong bounds =
     concat (map (\<lambda>bs. of_nat (length bs) # concat (map packBoundLong bs)) bounds)"

subsection \<open>The global IDs of the owned elements\<close>

text \<open>
  The cursors \<^verbatim>\<open>indL\<close> and \<^verbatim>\<open>indS\<close> are unsigned longs, and natural numbers here. Where
  the source adds a signed amount to a cursor (a number of nodes, which is a long, or a
  number of degrees of freedom held in a short), the sum is taken in the unsigned long.
\<close>

definition advance :: "nat \<Rightarrow> long \<Rightarrow> nat" where
  "advance ind d = unat ((of_nat ind :: ulong) + d)"

text \<open>The loop that adds up \<^verbatim>\<open>local_elem\<close> from the first long of every receive
  buffer.\<close>

fun localElemLoop :: "long list list \<Rightarrow> ulong \<Rightarrow> failure + ulong" where
  "localElemLoop [] local_elem = Inr local_elem"
| "localElemLoop (L # bufs) local_elem =
     (case rd L 0 of Inl f \<Rightarrow> Inl f
      | Inr n \<Rightarrow> localElemLoop bufs (local_elem + n))"

text \<open>
  The loop over the elements of one receive buffer that fills \<^verbatim>\<open>globalElemID\<close>;
  \<open>j\<close> elements remain, \<open>indL\<close> and \<open>indS\<close> are the two cursors.
\<close>

fun globalElemIDLoop ::
  "long list \<Rightarrow> short list \<Rightarrow> nat \<Rightarrow> nat \<Rightarrow> nat \<Rightarrow> ulong list
     \<Rightarrow> failure + (nat \<times> nat \<times> ulong list)" where
  "globalElemIDLoop L S 0 indL indS globalElemID = Inr (indL, indS, globalElemID)"
| "globalElemIDLoop L S (Suc j) indL indS globalElemID =
     (case rd L indL of Inl f \<Rightarrow> Inl f
      | Inr elemID \<Rightarrow>
     (case rd S (indS + 3) of Inl f \<Rightarrow> Inl f
      | Inr nDOFsGrid' \<Rightarrow>
     (case rd S (indS + 5) of Inl f \<Rightarrow> Inl f
      | Inr nFaces' \<Rightarrow>
          globalElemIDLoop L S j (indL + (unat nDOFsGrid' + unat nFaces' + 2))
            (indS + (2 * unat nFaces' + 7)) (globalElemID @ [elemID]))))"

text \<open>The loop over the boundary elements of one marker in one receive buffer, which
  only moves the cursors; \<open>j\<close> boundary elements remain. The number of degrees of
  freedom is read into a short.\<close>

fun boundCountLoop :: "short list \<Rightarrow> nat \<Rightarrow> nat \<Rightarrow> nat \<Rightarrow> failure + (nat \<times> nat)" where
  "boundCountLoop S 0 indL indS = Inr (indL, indS)"
| "boundCountLoop S (Suc j) indL indS =
     (case rd S (indS + 2) of Inl f \<Rightarrow> Inl f
      | Inr nDOFsBoundElem \<Rightarrow>
          boundCountLoop S j (advance indL (scast nDOFsBoundElem + 2)) (indS + 3))"

text \<open>The loop over the markers, given as the list of the marker indices that remain.
  The number of boundary elements is a long, and so is the counter that is compared
  with it. \<^verbatim>\<open>nElem_Bound\<close> is an array of \<^verbatim>\<open>nMarker\<close> unsigned longs.\<close>

fun markerCountLoop ::
  "long list \<Rightarrow> short list \<Rightarrow> nat list \<Rightarrow> nat \<Rightarrow> nat \<Rightarrow> ulong list
     \<Rightarrow> failure + (nat \<times> nat \<times> ulong list)" where
  "markerCountLoop L S [] indL indS nElem_Bound = Inr (indL, indS, nElem_Bound)"
| "markerCountLoop L S (iMarker # markers) indL indS nElem_Bound =
     (case rd L indL of Inl f \<Rightarrow> Inl f
      | Inr nBoundElemThisRank \<Rightarrow>
     (case boundCountLoop S (nat (sint nBoundElemThisRank)) (indL + 1) indS of Inl f \<Rightarrow> Inl f
      | Inr (indL', indS') \<Rightarrow>
          markerCountLoop L S markers indL' indS'
            (nElem_Bound[iMarker := nElem_Bound ! iMarker + nBoundElemThisRank])))"

text \<open>The loop over the receive buffers. It carries \<^verbatim>\<open>globalElemID\<close>, \<^verbatim>\<open>local_node\<close>
  and \<^verbatim>\<open>nElem_Bound\<close>.\<close>

fun globalElemIDRanks ::
  "nat \<Rightarrow> (long list \<times> short list) list \<Rightarrow> ulong list \<times> ulong \<times> ulong list
     \<Rightarrow> failure + (ulong list \<times> ulong \<times> ulong list)" where
  "globalElemIDRanks nMarker [] acc = Inr acc"
| "globalElemIDRanks nMarker ((L, S) # bufs) (globalElemID, local_node, nElem_Bound) =
     (case rd L 0 of Inl f \<Rightarrow> Inl f
      | Inr n \<Rightarrow>
     (case globalElemIDLoop L S (unat n) 1 0 globalElemID of Inl f \<Rightarrow> Inl f
      | Inr (indL, indS, globalElemID') \<Rightarrow>
     (case rd L indL of Inl f \<Rightarrow> Inl f
      | Inr nNodesThisRank \<Rightarrow>
     (case markerCountLoop L S [0..<nMarker] (advance indL (nNodesThisRank + 1)) indS
             nElem_Bound of Inl f \<Rightarrow> Inl f
      | Inr (indL', indS', nElem_Bound') \<Rightarrow>
          globalElemIDRanks nMarker bufs
            (globalElemID', local_node + nNodesThisRank, nElem_Bound')))))"

text \<open>
  The whole passage: \<^verbatim>\<open>local_elem\<close> is added up, the loop over the receive buffers is
  run with \<^verbatim>\<open>local_node\<close> zero and \<^verbatim>\<open>nElem_Bound\<close> all zero, and \<^verbatim>\<open>globalElemID\<close> is
  sorted. The result is \<^verbatim>\<open>globalElemID\<close> with \<^verbatim>\<open>local_elem\<close>, \<^verbatim>\<open>local_node\<close> and
  \<^verbatim>\<open>nElem_Bound\<close>.
\<close>

definition determineGlobalElemID ::
  "nat \<Rightarrow> long list list \<Rightarrow> short list list
     \<Rightarrow> failure + (ulong list \<times> ulong \<times> ulong \<times> ulong list)" where
  "determineGlobalElemID nMarker longRecvBuf shortRecvBuf =
     (case localElemLoop longRecvBuf 0 of Inl f \<Rightarrow> Inl f
      | Inr local_elem \<Rightarrow>
     (case globalElemIDRanks nMarker (zip longRecvBuf shortRecvBuf)
             ([], 0, replicate nMarker 0) of Inl f \<Rightarrow> Inl f
      | Inr (globalElemID, local_node, nElem_Bound) \<Rightarrow>
          Inr (std_sort (<) globalElemID, local_elem, local_node, nElem_Bound)))"

subsection \<open>The halo elements\<close>

text \<open>The loop over the faces of one element; \<open>k\<close> faces remain.\<close>

fun haloFaceLoop ::
  "ulong list \<Rightarrow> long list \<Rightarrow> short list \<Rightarrow> nat \<Rightarrow> nat \<Rightarrow> nat \<Rightarrow> unsignedLong2T list
     \<Rightarrow> failure + (nat \<times> nat \<times> unsignedLong2T list)" where
  "haloFaceLoop globalElemID L S 0 indL indS haloElements = Inr (indL, indS, haloElements)"
| "haloFaceLoop globalElemID L S (Suc k) indL indS haloElements =
     (case rd L indL of Inl f \<Rightarrow> Inl f
      | Inr neighbor \<Rightarrow>
          if neighbor \<noteq> - 1 then
            (case rd S indS of Inl f \<Rightarrow> Inl f
             | Inr perIndex \<Rightarrow>
                 let neighborIsInternal =
                       (if perIndex = - 1
                        then std_binary_search (<) globalElemID neighbor else False)
                 in haloFaceLoop globalElemID L S k (indL + 1) (indS + 2)
                      (if \<not> neighborIsInternal
                       then haloElements @ [\<lparr>long0 = neighbor, long1 = scast perIndex + 1\<rparr>]
                       else haloElements))
          else haloFaceLoop globalElemID L S k (indL + 1) (indS + 2) haloElements)"

text \<open>The loop over the elements of one receive buffer; \<open>j\<close> elements remain.\<close>

fun haloElemLoop ::
  "ulong list \<Rightarrow> long list \<Rightarrow> short list \<Rightarrow> nat \<Rightarrow> nat \<Rightarrow> nat \<Rightarrow> unsignedLong2T list
     \<Rightarrow> failure + (nat \<times> nat \<times> unsignedLong2T list)" where
  "haloElemLoop globalElemID L S 0 indL indS haloElements = Inr (indL, indS, haloElements)"
| "haloElemLoop globalElemID L S (Suc j) indL indS haloElements =
     (case rd S (indS + 3) of Inl f \<Rightarrow> Inl f
      | Inr nDOFsGrid' \<Rightarrow>
     (case rd S (indS + 5) of Inl f \<Rightarrow> Inl f
      | Inr nFaces' \<Rightarrow>
     (case haloFaceLoop globalElemID L S (unat nFaces') (indL + (unat nDOFsGrid' + 2))
             (indS + 7) haloElements of Inl f \<Rightarrow> Inl f
      | Inr (indL', indS', haloElements') \<Rightarrow>
          haloElemLoop globalElemID L S j indL' indS' haloElements')))"

fun haloElemRanks ::
  "ulong list \<Rightarrow> (long list \<times> short list) list \<Rightarrow> unsignedLong2T list
     \<Rightarrow> failure + unsignedLong2T list" where
  "haloElemRanks globalElemID [] haloElements = Inr haloElements"
| "haloElemRanks globalElemID ((L, S) # bufs) haloElements =
     (case rd L 0 of Inl f \<Rightarrow> Inl f
      | Inr n \<Rightarrow>
     (case haloElemLoop globalElemID L S (unat n) 1 0 haloElements of Inl f \<Rightarrow> Inl f
      | Inr (indL, indS, haloElements') \<Rightarrow> haloElemRanks globalElemID bufs haloElements'))"

text \<open>The halo elements of the rank: the loops, then sort, unique and erase.\<close>

definition determineHaloElements ::
  "ulong list \<Rightarrow> long list list \<Rightarrow> short list list \<Rightarrow> failure + unsignedLong2T list" where
  "determineHaloElements globalElemID longRecvBuf shortRecvBuf =
     (case haloElemRanks globalElemID (zip longRecvBuf shortRecvBuf) [] of Inl f \<Rightarrow> Inl f
      | Inr haloElements \<Rightarrow> Inr (dedupHaloElements haloElements))"

text \<open>
  The statement of the specification about one face: the neighbour is a halo when
  its global ID is not \<open>-1\<close>, unless the face has no periodic index and the ID is found
  by binary search among the owned IDs; the descriptor of the halo is the pair of the
  ID and the periodic index plus one.
\<close>

definition face_is_halo :: "ulong list \<Rightarrow> long \<Rightarrow> short \<Rightarrow> bool" where
  "face_is_halo globalElemID neighbor perIndex =
     (neighbor \<noteq> - 1 \<and> \<not> (perIndex = - 1 \<and> std_binary_search (<) globalElemID neighbor))"

definition haloDescriptor :: "long \<Rightarrow> short \<Rightarrow> unsignedLong2T" where
  "haloDescriptor neighbor perIndex = \<lparr>long0 = neighbor, long1 = scast perIndex + 1\<rparr>"

definition halosOfElement :: "ulong list \<Rightarrow> CPrimalGridFEM \<Rightarrow> unsignedLong2T list" where
  "halosOfElement globalElemID e =
     map (\<lambda>k. haloDescriptor (GetNeighbor_Elements e k) (GetPeriodicIndex e k))
       (filter (\<lambda>k. face_is_halo globalElemID (GetNeighbor_Elements e k) (GetPeriodicIndex e k))
          [0..<unat (GetnFaces e)])"

text \<open>
  The receive buffers of the first exchange, one entry per sending rank: the elements
  that the rank packed for this rank, the nodes of these elements with their
  coordinates, and for every marker the boundary elements.
\<close>

type_synonym received_rank =
  "CPrimalGridFEM list \<times> (long \<times> real list) list \<times> CPrimalGridBoundFEM list list"

definition receivedLong :: "received_rank list \<Rightarrow> long list list" where
  "receivedLong received =
     map (\<lambda>(es, nodes, bounds).
            packElementsLong es @ packNodesLong nodes @ packMarkersLong bounds) received"

definition receivedShort :: "received_rank list \<Rightarrow> short list list" where
  "receivedShort received =
     map (\<lambda>(es, nodes, bounds). packElementsShort es @ packMarkersShort bounds) received"

definition receivedDouble :: "received_rank list \<Rightarrow> real list list" where
  "receivedDouble received = map (\<lambda>(es, nodes, bounds). packNodesDouble nodes) received"

definition receivedElements :: "received_rank list \<Rightarrow> CPrimalGridFEM list" where
  "receivedElements received = concat (map fst received)"

text \<open>The counts that the receive buffers add up to.\<close>

definition addBoundCounts :: "ulong list \<Rightarrow> CPrimalGridBoundFEM list list \<Rightarrow> ulong list" where
  "addBoundCounts nElem_Bound bounds =
     map (\<lambda>(c, bs). c + of_nat (length bs)) (zip nElem_Bound bounds)"

definition receivedLocalElem :: "received_rank list \<Rightarrow> ulong" where
  "receivedLocalElem received =
     sum_list (map (\<lambda>(es, nodes, bounds). of_nat (length es)) received)"

definition receivedLocalNode :: "received_rank list \<Rightarrow> ulong" where
  "receivedLocalNode received =
     sum_list (map (\<lambda>(es, nodes, bounds). of_nat (length nodes)) received)"

definition receivedElemBound :: "nat \<Rightarrow> received_rank list \<Rightarrow> ulong list" where
  "receivedElemBound nMarker received =
     fold (\<lambda>(es, nodes, bounds) c. addBoundCounts c bounds) received (replicate nMarker 0)"

text \<open>
  What the sizes of the vectors and the types of the counters give: there are
  \<^verbatim>\<open>nMarker\<close> lists of boundary elements, the long buffer has fewer than \<open>2\<^sup>6\<^sup>3\<close> entries
  (so that every number of entries is a non-negative long), every node has \<^verbatim>\<open>nDim\<close>
  coordinates, and the number of degrees of freedom of a boundary element is a
  non-negative short.
\<close>

definition received_rank_wf :: "nat \<Rightarrow> nat \<Rightarrow> received_rank \<Rightarrow> bool" where
  "received_rank_wf nMarker meshDim r =
     (case r of (es, nodes, bounds) \<Rightarrow>
        length bounds = nMarker
      \<and> length (packElementsLong es @ packNodesLong nodes @ packMarkersLong bounds) < 2 ^ 63
      \<and> list_all (\<lambda>node. length (snd node) = meshDim) nodes
      \<and> list_all (list_all (\<lambda>b. 0 \<le> sint (CPrimalGridBoundFEM.GetNDOFsGrid b))) bounds)"

definition received_wf :: "nat \<Rightarrow> nat \<Rightarrow> received_rank list \<Rightarrow> bool" where
  "received_wf nMarker meshDim received = list_all (received_rank_wf nMarker meshDim) received"

subsection \<open>Step 3: the owning rank answers the requests for halo elements\<close>

text \<open>
  The part of the original grid that the answering rank reads: its elements, and the
  entries of \<^verbatim>\<open>starting_node\<close> and \<^verbatim>\<open>npoint_procs\<close> for the rank itself (in this
  reader both arrays describe the distribution of the elements over the ranks).
\<close>

record CGeometry =
  elem :: "CPrimalGridFEM list"
  starting_node_rank :: ulong
  npoint_procs_rank :: ulong

text \<open>The send buffers of one requesting rank and the vector \<^verbatim>\<open>nodeIDs\<close>.\<close>

record halo_answer =
  shortSendBuf :: "short list"
  longSendBuf :: "long list"
  nodeIDs :: "unsignedLong2T list"

definition invalidLocalElementID :: string where
  "invalidLocalElementID = ''Invalid local element ID in function CMeshFEM::CMeshFEM''"

text \<open>The local index of a requested element, and the test of the source on it:
  \<^verbatim>\<open>locElemInd < 0\<close> compares longs, \<^verbatim>\<open>locElemInd >= npoint_procs[rank]\<close> compares
  unsigned longs.\<close>

definition locElemInd_of :: "CGeometry \<Rightarrow> long \<Rightarrow> long" where
  "locElemInd_of g globalElemID = globalElemID - starting_node_rank g"

definition locElemInd_invalid :: "CGeometry \<Rightarrow> long \<Rightarrow> bool" where
  "locElemInd_invalid g locElemInd =
     (sint locElemInd < 0 \<or> npoint_procs_rank g \<le> locElemInd)"

text \<open>
  One pass through the body of the loop over the requested elements. The three
  longs of the request at \<open>indL\<close> are the global element ID, the periodic index and
  the position of the halo in \<^verbatim>\<open>volElem\<close> of the requesting rank; they lie inside
  the receive buffer because the loop runs \<^verbatim>\<open>size()/3\<close> times. \<^verbatim>\<open>geometry->elem\<close>
  is an array: subscripting it past its end is undefined.
\<close>

definition answerHaloElement ::
  "CGeometry \<Rightarrow> long list \<Rightarrow> nat \<Rightarrow> halo_answer \<Rightarrow> failure + halo_answer" where
  "answerHaloElement g longRecvBuf indL b =
     (let locElemInd = locElemInd_of g (longRecvBuf ! indL)
      in if locElemInd_invalid g locElemInd then Inl (Fatal invalidLocalElementID)
         else if unat locElemInd < length (elem g) then
           (let e = elem g ! unat locElemInd;
                perIndex = (ucast (longRecvBuf ! (indL + 1)) :: short);
                nodes = map (GetNode e) [0..<unat (GetNDOFsGrid e)]
            in Inr \<lparr>shortSendBuf = shortSendBuf b @
                       [perIndex, GetVTK_Type e, GetNPolyGrid e, GetNPolySol e,
                        GetNDOFsGrid e, GetNDOFsSol e, GetnFaces e],
                     longSendBuf = longSendBuf b @
                       [longRecvBuf ! indL, longRecvBuf ! (indL + 2), GetColor e] @ nodes,
                     nodeIDs = nodeIDs b @
                       map (\<lambda>thisNodeID. \<lparr>long0 = thisNodeID, long1 = scast perIndex + 1\<rparr>)
                         nodes\<rparr>)
         else Inl Undefined)"

text \<open>The loop over the \<open>n\<close> requests that remain, the first of them at \<open>indL\<close>; the run
  stops at the first request that fails.\<close>

fun answerHaloLoop ::
  "CGeometry \<Rightarrow> long list \<Rightarrow> nat \<Rightarrow> nat \<Rightarrow> halo_answer \<Rightarrow> failure + halo_answer" where
  "answerHaloLoop g longRecvBuf 0 indL b = Inr b"
| "answerHaloLoop g longRecvBuf (Suc n) indL b =
     (case answerHaloElement g longRecvBuf indL b of
        Inl f \<Rightarrow> Inl f
      | Inr b' \<Rightarrow> answerHaloLoop g longRecvBuf n (indL + 3) b')"

definition answerHaloRequests :: "CGeometry \<Rightarrow> long list \<Rightarrow> failure + halo_answer" where
  "answerHaloRequests g longRecvBuf =
     (let nElemBuf = length longRecvBuf div 3
      in answerHaloLoop g longRecvBuf nElemBuf 0
           \<lparr>shortSendBuf = [], longSendBuf = [of_nat nElemBuf], nodeIDs = []\<rparr>)"

subsection \<open>Step 4: the halo points without periodic index\<close>

text \<open>The two values that mark a halo point as invalid: \<^verbatim>\<open>Global_nPoint + 10\<close> and
  \<^verbatim>\<open>SHRT_MAX\<close>.\<close>

definition InvalidPointID :: "ulong \<Rightarrow> ulong" where
  "InvalidPointID Global_nPoint = Global_nPoint + 10"

definition InvalidPerInd :: short where
  "InvalidPerInd = 32767"

text \<open>
  The loop that searches the non-periodic halo points in \<^verbatim>\<open>meshPoints\<close>, from
  position \<open>i\<close> on; it leaves at the first point with a periodic index. The counter
  \<^verbatim>\<open>nHaloPoints\<close> starts at the size of the vector and is decreased at most once per
  point, so it does not pass below zero.
\<close>

function invalidateLoop ::
  "CPointFEM list \<Rightarrow> ulong \<Rightarrow> CPointFEM list \<Rightarrow> nat \<Rightarrow> nat \<Rightarrow> CPointFEM list \<times> nat" where
  "invalidateLoop meshPoints Global_nPoint haloPoints i nHaloPoints =
     (if i < length haloPoints then
        (if CPointFEM.periodIndexToDonor (haloPoints ! i) \<noteq> - 1
         then (haloPoints, nHaloPoints)
         else if std_binary_search CPointFEM_less meshPoints (haloPoints ! i)
         then invalidateLoop meshPoints Global_nPoint
                (haloPoints[i := (haloPoints ! i)
                   \<lparr>globalID := InvalidPointID Global_nPoint,
                    CPointFEM.periodIndexToDonor := InvalidPerInd\<rparr>])
                (i + 1) (nHaloPoints - 1)
         else invalidateLoop meshPoints Global_nPoint haloPoints (i + 1) nHaloPoints)
      else (haloPoints, nHaloPoints))"
  by pat_completeness auto
termination
  by (relation "measure (\<lambda>(meshPoints, Global_nPoint, haloPoints, i, nHaloPoints).
        length haloPoints - i)") auto

declare invalidateLoop.simps [simp del]

text \<open>The loop that adds the non-periodic halo points to \<^verbatim>\<open>meshPoints\<close>, from position
  \<open>i\<close> on.\<close>

function addNonPeriodicLoop :: "CPointFEM list \<Rightarrow> CPointFEM list \<Rightarrow> nat \<Rightarrow> CPointFEM list" where
  "addNonPeriodicLoop haloPoints meshPoints i =
     (if i < length haloPoints then
        (if CPointFEM.periodIndexToDonor (haloPoints ! i) \<noteq> - 1 then meshPoints
         else addNonPeriodicLoop haloPoints (meshPoints @ [haloPoints ! i]) (i + 1))
      else meshPoints)"
  by pat_completeness auto
termination
  by (relation "measure (\<lambda>(haloPoints, meshPoints, i). length haloPoints - i)") auto

declare addNonPeriodicLoop.simps [simp del]

text \<open>
  From the removal of the duplicate halo points to the extension of
  \<^verbatim>\<open>meshPoints\<close>; the result is the pair of \<^verbatim>\<open>meshPoints\<close> and \<^verbatim>\<open>haloPoints\<close> with
  which the treatment of the periodic points starts. \<^verbatim>\<open>resize\<close> is called with a
  size that is at most the size of the vector, so it keeps a prefix.
\<close>

definition resolveNonPeriodicHalos ::
  "ulong \<Rightarrow> CPointFEM list \<Rightarrow> CPointFEM list \<Rightarrow> CPointFEM list \<times> CPointFEM list" where
  "resolveNonPeriodicHalos Global_nPoint meshPoints haloPoints =
     (let haloPoints1 = dedupPoints haloPoints;
          (haloPoints2, nHaloPoints) =
             invalidateLoop meshPoints Global_nPoint haloPoints1 0 (length haloPoints1);
          haloPoints3 = take nHaloPoints (std_sort CPointFEM_less haloPoints2)
      in (addNonPeriodicLoop haloPoints3 meshPoints 0, haloPoints3))"

text \<open>A point marked as invalid.\<close>

definition invalidated :: "ulong \<Rightarrow> CPointFEM \<Rightarrow> CPointFEM" where
  "invalidated Global_nPoint p =
     p\<lparr>globalID := InvalidPointID Global_nPoint,
       CPointFEM.periodIndexToDonor := InvalidPerInd\<rparr>"

text \<open>A halo point is non-periodic when its periodic index is \<open>-1\<close>; it is already
  present on the rank when the binary search finds it in \<^verbatim>\<open>meshPoints\<close>.\<close>

definition nonPeriodic :: "CPointFEM \<Rightarrow> bool" where
  "nonPeriodic p = (CPointFEM.periodIndexToDonor p = - 1)"

definition alreadyPresent :: "CPointFEM list \<Rightarrow> CPointFEM \<Rightarrow> bool" where
  "alreadyPresent meshPoints p = std_binary_search CPointFEM_less meshPoints p"

text \<open>The periodic index of a point that comes out of the exchange is \<open>-1\<close> or the
  index of a marker, which is below \<^verbatim>\<open>SHRT_MAX\<close>.\<close>

definition periodicIndex_wf :: "CPointFEM \<Rightarrow> bool" where
  "periodicIndex_wf p =
     (- 1 \<le> sint (CPointFEM.periodIndexToDonor p)
      \<and> sint (CPointFEM.periodIndexToDonor p) < 32767)"

subsection \<open>The periodic transformation of the halo points\<close>

text \<open>The data of the transformation of one periodic marker, as the constructor
  computes it from the configuration: \<open>center\<close>, \<open>angles\<close> and \<open>perTrans\<close> are the
  three-component arrays returned by \<^verbatim>\<open>GetPeriodicRotCenter\<close>,
  \<^verbatim>\<open>GetPeriodicRotAngles\<close> and \<^verbatim>\<open>GetPeriodicTranslation\<close> (the last is called
  \<^verbatim>\<open>trans\<close> in the source).\<close>

definition translationVector :: "real list \<Rightarrow> real list \<Rightarrow> real list" where
  "translationVector center perTrans =
     [center ! 0 - perTrans ! 0, center ! 1 - perTrans ! 1, center ! 2 - perTrans ! 2]"

definition rotMatrix :: "real list \<Rightarrow> real list list" where
  "rotMatrix angles =
     (let theta = angles ! 0; phi = angles ! 1; psi = angles ! 2;
          cosTheta = cos theta; cosPhi = cos phi; cosPsi = cos psi;
          sinTheta = sin theta; sinPhi = sin phi; sinPsi = sin psi
      in [[cosPhi * cosPsi, cosPhi * sinPsi, - sinPhi],
          [sinTheta * sinPhi * cosPsi - cosTheta * sinPsi,
           sinTheta * sinPhi * sinPsi + cosTheta * cosPsi,
           sinTheta * cosPhi],
          [cosTheta * sinPhi * cosPsi + sinTheta * sinPsi,
           cosTheta * sinPhi * sinPsi - sinTheta * cosPsi,
           cosTheta * cosPhi]])"

text \<open>The update of the coordinates of one halo point inside the loop over the halo
  points of the periodic index.\<close>

definition applyPeriodicTransformation ::
  "nat \<Rightarrow> real list \<Rightarrow> real list list \<Rightarrow> real list \<Rightarrow> CPointFEM \<Rightarrow> CPointFEM" where
  "applyPeriodicTransformation meshDim center rot translation p =
     (let dx = CPointFEM.coor p ! 0 - center ! 0;
          dy = CPointFEM.coor p ! 1 - center ! 1;
          dz = (if meshDim = 3 then CPointFEM.coor p ! 2 - center ! 2 else 0)
      in p\<lparr>CPointFEM.coor :=
           [rot ! 0 ! 0 * dx + rot ! 0 ! 1 * dy + rot ! 0 ! 2 * dz + translation ! 0,
            rot ! 1 ! 0 * dx + rot ! 1 ! 1 * dy + rot ! 1 ! 2 * dz + translation ! 1,
            rot ! 2 ! 0 * dx + rot ! 2 ! 1 * dy + rot ! 2 ! 2 * dz + translation ! 2]\<rparr>)"

definition transformHaloPoint ::
  "nat \<Rightarrow> real list \<Rightarrow> real list \<Rightarrow> real list \<Rightarrow> CPointFEM \<Rightarrow> CPointFEM" where
  "transformHaloPoint meshDim center angles perTrans p =
     applyPeriodicTransformation meshDim center (rotMatrix angles)
       (translationVector center perTrans) p"

text \<open>The mathematical side of the statement: vectors and matrices of dimension three,
  the elementary rotations about the coordinate axes, and their composition, the
  rotation about the x axis applied first, then the one about the y axis, then the one
  about the z axis.\<close>

type_synonym vec3 = "real \<times> real \<times> real"
type_synonym mat3 = "vec3 \<times> vec3 \<times> vec3"

definition vec_of :: "real list \<Rightarrow> vec3" where
  "vec_of v = (v ! 0, v ! 1, v ! 2)"

fun list_of_vec :: "vec3 \<Rightarrow> real list" where
  "list_of_vec (x, y, z) = [x, y, z]"

fun vec_add :: "vec3 \<Rightarrow> vec3 \<Rightarrow> vec3" where
  "vec_add (a, b, c) (x, y, z) = (a + x, b + y, c + z)"

fun vec_sub :: "vec3 \<Rightarrow> vec3 \<Rightarrow> vec3" where
  "vec_sub (a, b, c) (x, y, z) = (a - x, b - y, c - z)"

fun dot :: "vec3 \<Rightarrow> vec3 \<Rightarrow> real" where
  "dot (a, b, c) (x, y, z) = a * x + b * y + c * z"

fun mat_vec :: "mat3 \<Rightarrow> vec3 \<Rightarrow> vec3" where
  "mat_vec (r0, r1, r2) v = (dot r0 v, dot r1 v, dot r2 v)"

fun mat_transpose :: "mat3 \<Rightarrow> mat3" where
  "mat_transpose ((a, b, c), (d, e, f), (g, h, i)) = ((a, d, g), (b, e, h), (c, f, i))"

definition mat_mult :: "mat3 \<Rightarrow> mat3 \<Rightarrow> mat3" where
  "mat_mult A B =
     (case mat_transpose B of (c0, c1, c2) \<Rightarrow>
        (case A of (r0, r1, r2) \<Rightarrow>
           ((dot r0 c0, dot r0 c1, dot r0 c2),
            (dot r1 c0, dot r1 c1, dot r1 c2),
            (dot r2 c0, dot r2 c1, dot r2 c2))))"

definition rot_x :: "real \<Rightarrow> mat3" where
  "rot_x t = ((1, 0, 0), (0, cos t, - sin t), (0, sin t, cos t))"

definition rot_y :: "real \<Rightarrow> mat3" where
  "rot_y t = ((cos t, 0, sin t), (0, 1, 0), (- sin t, 0, cos t))"

definition rot_z :: "real \<Rightarrow> mat3" where
  "rot_z t = ((cos t, - sin t, 0), (sin t, cos t, 0), (0, 0, 1))"

definition rotation_xyz :: "real list \<Rightarrow> mat3" where
  "rotation_xyz angles =
     mat_mult (rot_z (angles ! 2)) (mat_mult (rot_y (angles ! 1)) (rot_x (angles ! 0)))"

text \<open>In two dimensions the code takes the third component of the displacement from
  the centre as zero; the point is read as lying in the plane of the centre.\<close>

definition lifted_coor :: "nat \<Rightarrow> real list \<Rightarrow> real list \<Rightarrow> vec3" where
  "lifted_coor meshDim center c = (c ! 0, c ! 1, if meshDim = 3 then c ! 2 else center ! 2)"

subsection \<open>Step 2: the owned elements are copied from the receive buffers\<close>

text \<open>Reading \<open>n\<close> consecutive entries of a buffer, one after the other, from position
  \<open>i\<close> on.\<close>

fun rd_range :: "'a list \<Rightarrow> nat \<Rightarrow> nat \<Rightarrow> failure + 'a list" where
  "rd_range buf i 0 = Inr []"
| "rd_range buf i (Suc n) =
     (case rd buf i of Inl f \<Rightarrow> Inl f
      | Inr x \<Rightarrow>
     (case rd_range buf (i + 1) n of Inl f \<Rightarrow> Inl f
      | Inr xs \<Rightarrow> Inr (x # xs)))"

text \<open>The loop over the faces of an element that stores
  \<^verbatim>\<open>JacFacesIsConsideredConstant\<close>: of every pair of shorts the first, the periodic
  index, is passed over and the second is converted to \<^verbatim>\<open>bool\<close>.\<close>

fun rd_faceFlags :: "short list \<Rightarrow> nat \<Rightarrow> nat \<Rightarrow> failure + bool list" where
  "rd_faceFlags buf i 0 = Inr []"
| "rd_faceFlags buf i (Suc n) =
     (case rd buf (i + 1) of Inl f \<Rightarrow> Inl f
      | Inr x \<Rightarrow>
     (case rd_faceFlags buf (i + 2) n of Inl f \<Rightarrow> Inl f
      | Inr xs \<Rightarrow> Inr ((x \<noteq> 0) # xs)))"

text \<open>
  The body of the loop over the volume elements of one receive buffer. The iterator
  returned by \<^verbatim>\<open>mapGlobalElemIDToInd.find\<close> is used without a test, so an ID that
  is not in the map is a dereference of \<^verbatim>\<open>end()\<close>; \<^verbatim>\<open>volElem[ind]\<close> is a
  subscript of the vector. \<open>rank\<close> is the rank of the process.
\<close>

definition storeOwnedElement ::
  "(ulong \<rightharpoonup> nat) \<Rightarrow> long \<Rightarrow> long list \<Rightarrow> short list \<Rightarrow> nat \<Rightarrow> nat
     \<Rightarrow> CVolumeElementFEM list \<Rightarrow> failure + (nat \<times> nat \<times> CVolumeElementFEM list)" where
  "storeOwnedElement mapElemIDToInd rank L S indL indS vol =
     (case rd L indL of Inl f \<Rightarrow> Inl f
      | Inr elemID \<Rightarrow>
     (case mapElemIDToInd elemID of None \<Rightarrow> Inl Undefined
      | Some ind \<Rightarrow>
       if \<not> ind < length vol then Inl Undefined
       else
     (case rd_range S indS 7 of Inl f \<Rightarrow> Inl f
      | Inr s \<Rightarrow>
     (case rd L (indL + 1) of Inl f \<Rightarrow> Inl f
      | Inr offset \<Rightarrow>
     (case rd_range L (indL + 2) (unat (s ! 3)) of Inl f \<Rightarrow> Inl f
      | Inr nodes \<Rightarrow>
     (case rd_faceFlags S (indS + 7) (unat (s ! 5)) of Inl f \<Rightarrow> Inl f
      | Inr faceFlags \<Rightarrow>
          Inr (indL + 2 + unat (s ! 3) + unat (s ! 5),
               indS + 7 + 2 * unat (s ! 5),
               vol[ind := (vol ! ind)
                 \<lparr>elemIsOwned := True,
                  rankOriginal := rank,
                  periodIndexToDonor := - 1,
                  CVolumeElementFEM.VTK_Type := s ! 0,
                  CVolumeElementFEM.nPolyGrid := s ! 1,
                  nPolySol := s ! 2,
                  CVolumeElementFEM.nDOFsGrid := s ! 3,
                  nDOFsSol := s ! 4,
                  nFaces := s ! 5,
                  JacIsConsideredConstant := (s ! 6 \<noteq> 0),
                  elemIDGlobal := elemID,
                  offsetDOFsSolGlobal := offset,
                  CVolumeElementFEM.nodeIDsGrid := nodes,
                  JacFacesIsConsideredConstant := faceFlags\<rparr>])))))))"

text \<open>The loop over the \<open>j\<close> elements that remain in the buffer.\<close>

fun storeOwnedLoop ::
  "(ulong \<rightharpoonup> nat) \<Rightarrow> long \<Rightarrow> long list \<Rightarrow> short list \<Rightarrow> nat \<Rightarrow> nat \<Rightarrow> nat
     \<Rightarrow> CVolumeElementFEM list \<Rightarrow> failure + (nat \<times> nat \<times> CVolumeElementFEM list)" where
  "storeOwnedLoop mapElemIDToInd rank L S 0 indL indS vol = Inr (indL, indS, vol)"
| "storeOwnedLoop mapElemIDToInd rank L S (Suc j) indL indS vol =
     (case storeOwnedElement mapElemIDToInd rank L S indL indS vol of Inl f \<Rightarrow> Inl f
      | Inr (indL', indS', vol') \<Rightarrow>
          storeOwnedLoop mapElemIDToInd rank L S j indL' indS' vol')"

text \<open>
  The loop over the nodes of one receive buffer; \<open>j\<close> nodes remain, \<open>indD\<close> is the
  cursor in the buffer of doubles. \<open>dfltPoint\<close> is the default-constructed
  \<^verbatim>\<open>CPointFEM\<close>, whose constructor is in the header; the first \<^verbatim>\<open>nDim\<close> entries of its
  array \<^verbatim>\<open>coor\<close> are overwritten.
\<close>

fun storeNodesLoop ::
  "long list \<Rightarrow> real list \<Rightarrow> nat \<Rightarrow> CPointFEM \<Rightarrow> nat \<Rightarrow> nat \<Rightarrow> nat \<Rightarrow> CPointFEM list
     \<Rightarrow> failure + (nat \<times> nat \<times> CPointFEM list)" where
  "storeNodesLoop L D meshDim dfltPoint 0 indL indD meshPoints = Inr (indL, indD, meshPoints)"
| "storeNodesLoop L D meshDim dfltPoint (Suc j) indL indD meshPoints =
     (case rd L indL of Inl f \<Rightarrow> Inl f
      | Inr nodeID' \<Rightarrow>
       if \<not> meshDim \<le> length (CPointFEM.coor dfltPoint) then Inl Undefined
       else
     (case rd_range D indD meshDim of Inl f \<Rightarrow> Inl f
      | Inr xs \<Rightarrow>
          storeNodesLoop L D meshDim dfltPoint j (indL + 1) (indD + meshDim)
            (meshPoints @
               [dfltPoint\<lparr>globalID := nodeID', CPointFEM.periodIndexToDonor := - 1,
                          CPointFEM.coor := xs @ drop meshDim (CPointFEM.coor dfltPoint)\<rparr>])))"

text \<open>The loop over the boundary elements of one marker in one receive buffer; \<open>j\<close>
  of them remain. Every member of \<^verbatim>\<open>thisSurfElem\<close> that the record has is assigned.\<close>

fun storeSurfLoop ::
  "long list \<Rightarrow> short list \<Rightarrow> nat \<Rightarrow> nat \<Rightarrow> nat \<Rightarrow> CSurfaceElementFEM list
     \<Rightarrow> failure + (nat \<times> nat \<times> CSurfaceElementFEM list)" where
  "storeSurfLoop L S 0 indL indS surfElem = Inr (indL, indS, surfElem)"
| "storeSurfLoop L S (Suc j) indL indS surfElem =
     (case rd_range S indS 3 of Inl f \<Rightarrow> Inl f
      | Inr s \<Rightarrow>
     (case rd_range L indL 2 of Inl f \<Rightarrow> Inl f
      | Inr l \<Rightarrow>
     (case rd_range L (indL + 2) (unat (s ! 2)) of Inl f \<Rightarrow> Inl f
      | Inr nodes \<Rightarrow>
          storeSurfLoop L S j (indL + 2 + unat (s ! 2)) (indS + 3)
            (surfElem @
               [\<lparr>CSurfaceElementFEM.VTK_Type = s ! 0, CSurfaceElementFEM.nPolyGrid = s ! 1,
                 CSurfaceElementFEM.nDOFsGrid = s ! 2, volElemID = l ! 0,
                 boundElemIDGlobal = l ! 1, CSurfaceElementFEM.nodeIDsGrid = nodes\<rparr>]))))"

text \<open>The loop over the markers, given as the list of the marker indices that remain;
  \<^verbatim>\<open>boundaries\<close> holds the vector \<^verbatim>\<open>surfElem\<close> of every marker.\<close>

fun storeMarkersLoop ::
  "long list \<Rightarrow> short list \<Rightarrow> nat list \<Rightarrow> nat \<Rightarrow> nat \<Rightarrow> CSurfaceElementFEM list list
     \<Rightarrow> failure + (nat \<times> nat \<times> CSurfaceElementFEM list list)" where
  "storeMarkersLoop L S [] indL indS boundaries = Inr (indL, indS, boundaries)"
| "storeMarkersLoop L S (iMarker # markers) indL indS boundaries =
     (case rd L indL of Inl f \<Rightarrow> Inl f
      | Inr nElemThisRank \<Rightarrow>
       if \<not> iMarker < length boundaries then Inl Undefined
       else
     (case storeSurfLoop L S (unat nElemThisRank) (indL + 1) indS (boundaries ! iMarker)
        of Inl f \<Rightarrow> Inl f
      | Inr (indL', indS', surfElem) \<Rightarrow>
          storeMarkersLoop L S markers indL' indS' (boundaries[iMarker := surfElem])))"

text \<open>
  The loop over the receive buffers: the volume elements, the nodes and the boundary
  elements of every buffer are copied, in this order, to \<^verbatim>\<open>volElem\<close>, \<^verbatim>\<open>meshPoints\<close>
  and \<^verbatim>\<open>boundaries\<close>.
\<close>

type_synonym mesh_state =
  "CVolumeElementFEM list \<times> CPointFEM list \<times> CSurfaceElementFEM list list"

fun storeOwnedRanks ::
  "(ulong \<rightharpoonup> nat) \<Rightarrow> long \<Rightarrow> nat \<Rightarrow> nat \<Rightarrow> CPointFEM
     \<Rightarrow> (long list \<times> short list \<times> real list) list \<Rightarrow> mesh_state \<Rightarrow> failure + mesh_state" where
  "storeOwnedRanks mapElemIDToInd rank meshDim nMarker dfltPoint [] st = Inr st"
| "storeOwnedRanks mapElemIDToInd rank meshDim nMarker dfltPoint ((L, S, D) # bufs)
       (vol, meshPoints, boundaries) =
     (case rd L 0 of Inl f \<Rightarrow> Inl f
      | Inr n \<Rightarrow>
     (case storeOwnedLoop mapElemIDToInd rank L S (unat n) 1 0 vol of Inl f \<Rightarrow> Inl f
      | Inr (indL, indS, vol') \<Rightarrow>
     (case rd L indL of Inl f \<Rightarrow> Inl f
      | Inr nNodesThisRank \<Rightarrow>
     (case storeNodesLoop L D meshDim dfltPoint (unat nNodesThisRank) (indL + 1) 0 meshPoints
        of Inl f \<Rightarrow> Inl f
      | Inr (indL', indD, meshPoints') \<Rightarrow>
     (case storeMarkersLoop L S [0..<nMarker] indL' indS boundaries of Inl f \<Rightarrow> Inl f
      | Inr (indL'', indS', boundaries') \<Rightarrow>
          storeOwnedRanks mapElemIDToInd rank meshDim nMarker dfltPoint bufs
            (vol', meshPoints', boundaries'))))))"

text \<open>The copy starts with \<^verbatim>\<open>volElem\<close> as it was resized, no points, and \<^verbatim>\<open>nMarker\<close>
  empty vectors of boundary elements.\<close>

definition storeOwnedElements ::
  "(ulong \<rightharpoonup> nat) \<Rightarrow> long \<Rightarrow> nat \<Rightarrow> nat \<Rightarrow> CPointFEM
     \<Rightarrow> long list list \<Rightarrow> short list list \<Rightarrow> real list list
     \<Rightarrow> CVolumeElementFEM list \<Rightarrow> failure + mesh_state" where
  "storeOwnedElements mapElemIDToInd rank meshDim nMarker dfltPoint
       longRecvBuf shortRecvBuf doubleRecvBuf vol =
     storeOwnedRanks mapElemIDToInd rank meshDim nMarker dfltPoint
       (zip longRecvBuf (zip shortRecvBuf doubleRecvBuf)) (vol, [], replicate nMarker [])"

text \<open>What an owned element looks like in \<^verbatim>\<open>volElem\<close>, in terms of the element of the
  original grid that was packed; \<open>v\<close> is the entry before the copy.\<close>

definition ownedVolumeElement ::
  "long \<Rightarrow> CPrimalGridFEM \<Rightarrow> CVolumeElementFEM \<Rightarrow> CVolumeElementFEM" where
  "ownedVolumeElement rank e v =
     v\<lparr>elemIsOwned := True,
       rankOriginal := rank,
       periodIndexToDonor := - 1,
       CVolumeElementFEM.VTK_Type := GetVTK_Type e,
       CVolumeElementFEM.nPolyGrid := GetNPolyGrid e,
       nPolySol := GetNPolySol e,
       CVolumeElementFEM.nDOFsGrid := GetNDOFsGrid e,
       nDOFsSol := GetNDOFsSol e,
       nFaces := GetnFaces e,
       JacIsConsideredConstant := ((of_bool (GetJacobianConsideredConstant e) :: short) \<noteq> 0),
       elemIDGlobal := GetGlobalElemID e,
       offsetDOFsSolGlobal := GetGlobalOffsetDOFsSol e,
       CVolumeElementFEM.nodeIDsGrid := map (GetNode e) [0..<unat (GetNDOFsGrid e)],
       JacFacesIsConsideredConstant :=
         map (\<lambda>k. (of_bool (GetJacobianConstantFace e k) :: short) \<noteq> 0)
           [0..<unat (GetnFaces e)]\<rparr>"


text \<open>The point and the surface element that the copy makes of a received node and of
  a received boundary element.\<close>

definition receivedPoint :: "nat \<Rightarrow> CPointFEM \<Rightarrow> long \<times> real list \<Rightarrow> CPointFEM" where
  "receivedPoint meshDim dfltPoint node =
     dfltPoint\<lparr>globalID := fst node, CPointFEM.periodIndexToDonor := - 1,
               CPointFEM.coor := snd node @ drop meshDim (CPointFEM.coor dfltPoint)\<rparr>"

definition receivedSurfElem :: "CPrimalGridBoundFEM \<Rightarrow> CSurfaceElementFEM" where
  "receivedSurfElem b =
     \<lparr>CSurfaceElementFEM.VTK_Type = CPrimalGridBoundFEM.GetVTK_Type b,
      CSurfaceElementFEM.nPolyGrid = CPrimalGridBoundFEM.GetNPolyGrid b,
      CSurfaceElementFEM.nDOFsGrid = CPrimalGridBoundFEM.GetNDOFsGrid b,
      volElemID = GetDomainElement b,
      boundElemIDGlobal = CPrimalGridBoundFEM.GetGlobalElemID b,
      CSurfaceElementFEM.nodeIDsGrid =
        map (CPrimalGridBoundFEM.GetNode b) [0..<unat (CPrimalGridBoundFEM.GetNDOFsGrid b)]\<rparr>"

definition addSurfElems ::
  "CSurfaceElementFEM list list \<Rightarrow> CPrimalGridBoundFEM list list \<Rightarrow> CSurfaceElementFEM list list" where
  "addSurfElems boundaries bounds =
     map (\<lambda>(surfElem, bs). surfElem @ map receivedSurfElem bs) (zip boundaries bounds)"

definition receivedMeshPoints :: "nat \<Rightarrow> CPointFEM \<Rightarrow> received_rank list \<Rightarrow> CPointFEM list" where
  "receivedMeshPoints meshDim dfltPoint received =
     concat (map (\<lambda>(es, nodes, bounds). map (receivedPoint meshDim dfltPoint) nodes) received)"

definition receivedBoundaries :: "nat \<Rightarrow> received_rank list \<Rightarrow> CSurfaceElementFEM list list" where
  "receivedBoundaries nMarker received =
     fold (\<lambda>(es, nodes, bounds) boundaries. addSurfElems boundaries bounds) received
       (replicate nMarker [])"
subsection \<open>Step 3: the requests for the halo elements\<close>

text \<open>
  The rank on which a halo element was stored originally, from the cumulative
  element counts \<^verbatim>\<open>nElemPerRankOr\<close>. \<^verbatim>\<open>rankHalo\<close> is an unsigned long: the
  subtraction of one wraps around when \<^verbatim>\<open>lower_bound\<close> returns the first position.
  Reading \<^verbatim>\<open>*low\<close> when \<^verbatim>\<open>low\<close> is the end of the vector is undefined.
\<close>

definition rankOfHalo :: "ulong list \<Rightarrow> unsignedLong2T \<Rightarrow> failure + ulong" where
  "rankOfHalo nElemPerRankOr h =
     (let low = std_lower_bound (<) nElemPerRankOr (long0 h) 0 (length nElemPerRankOr);
          rankHalo = (of_nat low - 1 :: ulong)
      in case rd nElemPerRankOr low of Inl f \<Rightarrow> Inl f
         | Inr x \<Rightarrow> Inr (if x = long0 h then rankHalo + 1 else rankHalo))"

text \<open>The loop that marks in \<^verbatim>\<open>sendToRank\<close> the ranks to which requests go.\<close>

fun markSendToRank :: "ulong list \<Rightarrow> unsignedLong2T list \<Rightarrow> int list \<Rightarrow> failure + int list" where
  "markSendToRank nElemPerRankOr [] sendToRank = Inr sendToRank"
| "markSendToRank nElemPerRankOr (h # hs) sendToRank =
     (case rankOfHalo nElemPerRankOr h of Inl f \<Rightarrow> Inl f
      | Inr rankHalo \<Rightarrow>
          if unat rankHalo < length sendToRank
          then markSendToRank nElemPerRankOr hs (sendToRank[unat rankHalo := 1])
          else Inl Undefined)"

text \<open>The map \<^verbatim>\<open>rankToIndCommBuf\<close> with its size: the marked ranks are numbered in
  increasing order.\<close>

definition rankToIndCommBuf_of :: "int list \<Rightarrow> (nat \<rightharpoonup> nat) \<times> nat" where
  "rankToIndCommBuf_of sendToRank =
     fold (\<lambda>i (m, size). if sendToRank ! i \<noteq> 0 then (m(i \<mapsto> size), size + 1) else (m, size))
       [0..<length sendToRank] (Map.empty, 0)"

text \<open>
  The loop that fills the long send buffers: for every halo the global element ID,
  the periodic index (the second component minus one) and the position of the halo
  in \<^verbatim>\<open>volElem\<close>. Both \<^verbatim>\<open>find\<close> results are used without a test.
\<close>

fun haloRequestLoop ::
  "ulong list \<Rightarrow> (nat \<rightharpoonup> nat) \<Rightarrow> (unsignedLong2T \<rightharpoonup> nat) \<Rightarrow> unsignedLong2T list
     \<Rightarrow> long list list \<Rightarrow> failure + long list list" where
  "haloRequestLoop nElemPerRankOr rankToInd mapHaloToInd [] sendBuf = Inr sendBuf"
| "haloRequestLoop nElemPerRankOr rankToInd mapHaloToInd (h # hs) sendBuf =
     (case rankOfHalo nElemPerRankOr h of Inl f \<Rightarrow> Inl f
      | Inr rankHalo \<Rightarrow>
     (case rankToInd (unat rankHalo) of None \<Rightarrow> Inl Undefined
      | Some ind \<Rightarrow>
     (case mapHaloToInd h of None \<Rightarrow> Inl Undefined
      | Some slot \<Rightarrow>
          if ind < length sendBuf
          then haloRequestLoop nElemPerRankOr rankToInd mapHaloToInd hs
                 (sendBuf[ind := sendBuf ! ind @ [long0 h, long1 h - 1, of_nat slot]])
          else Inl Undefined)))"

definition buildHaloRequests ::
  "nat \<Rightarrow> ulong list \<Rightarrow> (unsignedLong2T \<rightharpoonup> nat) \<Rightarrow> unsignedLong2T list
     \<Rightarrow> failure + long list list" where
  "buildHaloRequests nRank nElemPerRankOr mapHaloToInd haloElements =
     (case markSendToRank nElemPerRankOr haloElements (replicate nRank 0) of Inl f \<Rightarrow> Inl f
      | Inr sendToRank \<Rightarrow>
          (case rankToIndCommBuf_of sendToRank of
             (rankToInd, nRankSend) \<Rightarrow>
               haloRequestLoop nElemPerRankOr rankToInd mapHaloToInd haloElements
                 (replicate nRankSend [])))"

text \<open>
  After the loop over the requested elements the answering rank sorts \<^verbatim>\<open>nodeIDs\<close> and
  removes the repetitions, appends the number of the node IDs and the IDs to the long
  buffer and the periodic indices (the second components minus one) to the short
  buffer, and copies the coordinates of the nodes to the buffer of doubles. The local
  index of a node is looked up in \<^verbatim>\<open>globalPointIDToLocalInd\<close>, and this lookup is
  tested. \<open>coordOf ind l\<close> is \<^verbatim>\<open>geometry->node[ind]->GetCoord(l)\<close>.
\<close>

definition entryNotFound :: string where
  "entryNotFound = ''Entry not found in map in function CMeshFEM::CMeshFEM''"

fun haloCoordLoop ::
  "(ulong \<rightharpoonup> nat) \<Rightarrow> (nat \<Rightarrow> nat \<Rightarrow> real) \<Rightarrow> nat \<Rightarrow> unsignedLong2T list \<Rightarrow> real list
     \<Rightarrow> failure + real list" where
  "haloCoordLoop globalPointIDToLocalInd coordOf meshDim [] doubleSendBuf = Inr doubleSendBuf"
| "haloCoordLoop globalPointIDToLocalInd coordOf meshDim (thisNode # rest) doubleSendBuf =
     (case globalPointIDToLocalInd (long0 thisNode) of
        None \<Rightarrow> Inl (Fatal entryNotFound)
      | Some ind \<Rightarrow>
          haloCoordLoop globalPointIDToLocalInd coordOf meshDim rest
            (doubleSendBuf @ map (coordOf ind) [0..<meshDim]))"

definition answerHaloPoints ::
  "(ulong \<rightharpoonup> nat) \<Rightarrow> (nat \<Rightarrow> nat \<Rightarrow> real) \<Rightarrow> nat \<Rightarrow> halo_answer
     \<Rightarrow> failure + (long list \<times> short list \<times> real list)" where
  "answerHaloPoints globalPointIDToLocalInd coordOf meshDim a =
     (let sortedNodeIDs = dedupHaloElements (nodeIDs a)
      in case haloCoordLoop globalPointIDToLocalInd coordOf meshDim sortedNodeIDs [] of
           Inl f \<Rightarrow> Inl f
         | Inr doubleBuf \<Rightarrow>
             Inr (longSendBuf a @ of_nat (length sortedNodeIDs) # map long0 sortedNodeIDs,
                  shortSendBuf a @ map (\<lambda>thisNode. ucast (long1 thisNode) - 1) sortedNodeIDs,
                  doubleBuf))"

text \<open>
  The answer of a rank to one buffer of requests, as it arrives. The answering rank
  is its grid, its map \<^verbatim>\<open>globalPointIDToLocalInd\<close> and the coordinates of its nodes.
\<close>

type_synonym answering_rank = "CGeometry \<times> (ulong \<rightharpoonup> nat) \<times> (nat \<Rightarrow> nat \<Rightarrow> real)"

definition haloAnswer ::
  "nat \<Rightarrow> answering_rank \<Rightarrow> long list \<Rightarrow> failure + (long list \<times> short list \<times> real list)" where
  "haloAnswer meshDim r request =
     (case r of (g, globalPointIDToLocalInd, coordOf) \<Rightarrow>
        (case answerHaloRequests g request of Inl f \<Rightarrow> Inl f
         | Inr a \<Rightarrow> answerHaloPoints globalPointIDToLocalInd coordOf meshDim a))"

subsection \<open>Step 4: the halo elements are stored\<close>

text \<open>The body of the loop over the halo elements of one receive buffer:
  \<^verbatim>\<open>volElem[indV]\<close> is subscripted with the position that the answer echoes.\<close>

definition storeHaloElement ::
  "long list \<Rightarrow> short list \<Rightarrow> nat \<Rightarrow> nat \<Rightarrow> CVolumeElementFEM list
     \<Rightarrow> failure + (nat \<times> nat \<times> CVolumeElementFEM list)" where
  "storeHaloElement L S indL indS vol =
     (case rd_range L indL 3 of Inl f \<Rightarrow> Inl f
      | Inr l \<Rightarrow>
       if \<not> unat (l ! 1) < length vol then Inl Undefined
       else
     (case rd_range S indS 7 of Inl f \<Rightarrow> Inl f
      | Inr s \<Rightarrow>
     (case rd_range L (indL + 3) (unat (s ! 4)) of Inl f \<Rightarrow> Inl f
      | Inr nodes \<Rightarrow>
          Inr (indL + 3 + unat (s ! 4), indS + 7,
               vol[unat (l ! 1) := (vol ! unat (l ! 1))
                 \<lparr>elemIDGlobal := l ! 0,
                  rankOriginal := l ! 2,
                  periodIndexToDonor := s ! 0,
                  CVolumeElementFEM.VTK_Type := s ! 1,
                  CVolumeElementFEM.nPolyGrid := s ! 2,
                  nPolySol := s ! 3,
                  CVolumeElementFEM.nDOFsGrid := s ! 4,
                  nDOFsSol := s ! 5,
                  nFaces := s ! 6,
                  CVolumeElementFEM.nodeIDsGrid := nodes,
                  elemIsOwned := False,
                  JacIsConsideredConstant := False,
                  offsetDOFsSolGlobal := - 1\<rparr>]))))"

fun storeHaloLoop ::
  "long list \<Rightarrow> short list \<Rightarrow> nat \<Rightarrow> nat \<Rightarrow> nat \<Rightarrow> CVolumeElementFEM list
     \<Rightarrow> failure + (nat \<times> nat \<times> CVolumeElementFEM list)" where
  "storeHaloLoop L S 0 indL indS vol = Inr (indL, indS, vol)"
| "storeHaloLoop L S (Suc j) indL indS vol =
     (case storeHaloElement L S indL indS vol of Inl f \<Rightarrow> Inl f
      | Inr (indL', indS', vol') \<Rightarrow> storeHaloLoop L S j indL' indS' vol')"

text \<open>The loop over the halo points of one receive buffer; \<open>j\<close> points remain.\<close>

fun storeHaloPointsLoop ::
  "long list \<Rightarrow> short list \<Rightarrow> real list \<Rightarrow> nat \<Rightarrow> CPointFEM \<Rightarrow> nat \<Rightarrow> nat \<Rightarrow> nat \<Rightarrow> nat
     \<Rightarrow> CPointFEM list \<Rightarrow> failure + (nat \<times> nat \<times> nat \<times> CPointFEM list)" where
  "storeHaloPointsLoop L S D meshDim dfltPoint 0 indL indS indD haloPoints =
     Inr (indL, indS, indD, haloPoints)"
| "storeHaloPointsLoop L S D meshDim dfltPoint (Suc j) indL indS indD haloPoints =
     (case rd L indL of Inl f \<Rightarrow> Inl f
      | Inr nodeID' \<Rightarrow>
     (case rd S indS of Inl f \<Rightarrow> Inl f
      | Inr perIndex \<Rightarrow>
       if \<not> meshDim \<le> length (CPointFEM.coor dfltPoint) then Inl Undefined
       else
     (case rd_range D indD meshDim of Inl f \<Rightarrow> Inl f
      | Inr xs \<Rightarrow>
          storeHaloPointsLoop L S D meshDim dfltPoint j (indL + 1) (indS + 1) (indD + meshDim)
            (haloPoints @
               [dfltPoint\<lparr>globalID := nodeID', CPointFEM.periodIndexToDonor := perIndex,
                          CPointFEM.coor := xs @ drop meshDim (CPointFEM.coor dfltPoint)\<rparr>]))))"

text \<open>The loop over the receive buffers, which fills \<^verbatim>\<open>volElem\<close> and \<^verbatim>\<open>haloPoints\<close>; the
  counters of the two inner loops are longs and are compared with a long of the buffer
  as signed numbers.\<close>

fun storeHaloRanks ::
  "nat \<Rightarrow> CPointFEM \<Rightarrow> (long list \<times> short list \<times> real list) list
     \<Rightarrow> CVolumeElementFEM list \<times> CPointFEM list
     \<Rightarrow> failure + (CVolumeElementFEM list \<times> CPointFEM list)" where
  "storeHaloRanks meshDim dfltPoint [] st = Inr st"
| "storeHaloRanks meshDim dfltPoint ((L, S, D) # bufs) (vol, haloPoints) =
     (case rd L 0 of Inl f \<Rightarrow> Inl f
      | Inr n \<Rightarrow>
     (case storeHaloLoop L S (nat (sint n)) 1 0 vol of Inl f \<Rightarrow> Inl f
      | Inr (indL, indS, vol') \<Rightarrow>
     (case rd L indL of Inl f \<Rightarrow> Inl f
      | Inr nPointsThisRank \<Rightarrow>
     (case storeHaloPointsLoop L S D meshDim dfltPoint (nat (sint nPointsThisRank))
             (indL + 1) indS 0 haloPoints of Inl f \<Rightarrow> Inl f
      | Inr (indL', indS', indD, haloPoints') \<Rightarrow>
          storeHaloRanks meshDim dfltPoint bufs (vol', haloPoints')))))"

text \<open>
  For the statements about the round trip: the positions in \<^verbatim>\<open>volElem\<close> named by a
  buffer of requests (the third long of every request); what the answering rank puts
  in its buffers for one request, the record of the global element ID, the echoed
  position, the periodic index and the element of its grid; and what the requesting
  rank makes of such a record.
\<close>

definition requestSlots :: "long list \<Rightarrow> long list" where
  "requestSlots request = map (\<lambda>j. request ! (3 * j + 2)) [0..<length request div 3]"

type_synonym halo_record = "long \<times> long \<times> short \<times> CPrimalGridFEM"

definition packHaloLong :: "halo_record \<Rightarrow> long list" where
  "packHaloLong r =
     (case r of (globElemID, indV, perIndex, e) \<Rightarrow>
        [globElemID, indV, GetColor e] @ map (GetNode e) [0..<unat (GetNDOFsGrid e)])"

definition packHaloShort :: "halo_record \<Rightarrow> short list" where
  "packHaloShort r =
     (case r of (globElemID, indV, perIndex, e) \<Rightarrow>
        [perIndex, GetVTK_Type e, GetNPolyGrid e, GetNPolySol e, GetNDOFsGrid e,
         GetNDOFsSol e, GetnFaces e])"

text \<open>The entries of \<^verbatim>\<open>nodeIDs\<close> for one record: every node of the element with the
  periodic index plus one.\<close>

definition haloNodeIDs :: "halo_record \<Rightarrow> unsignedLong2T list" where
  "haloNodeIDs r =
     (case r of (globElemID, indV, perIndex, e) \<Rightarrow>
        map (\<lambda>thisNodeID. \<lparr>long0 = thisNodeID, long1 = scast perIndex + 1\<rparr>)
          (map (GetNode e) [0..<unat (GetNDOFsGrid e)]))"

definition requestedRecords :: "CGeometry \<Rightarrow> long list \<Rightarrow> nat \<Rightarrow> nat \<Rightarrow> halo_record list" where
  "requestedRecords g request indL n =
     map (\<lambda>j. (request ! (indL + 3 * j), request ! (indL + 3 * j + 2),
               ucast (request ! (indL + 3 * j + 1)),
               elem g ! unat (locElemInd_of g (request ! (indL + 3 * j)))))
       [0..<n]"

definition haloVolumeElement :: "halo_record \<Rightarrow> CVolumeElementFEM \<Rightarrow> CVolumeElementFEM" where
  "haloVolumeElement r v =
     (case r of (globElemID, indV, perIndex, e) \<Rightarrow>
        v\<lparr>elemIDGlobal := globElemID,
          rankOriginal := GetColor e,
          periodIndexToDonor := perIndex,
          CVolumeElementFEM.VTK_Type := GetVTK_Type e,
          CVolumeElementFEM.nPolyGrid := GetNPolyGrid e,
          nPolySol := GetNPolySol e,
          CVolumeElementFEM.nDOFsGrid := GetNDOFsGrid e,
          nDOFsSol := GetNDOFsSol e,
          nFaces := GetnFaces e,
          CVolumeElementFEM.nodeIDsGrid := map (GetNode e) [0..<unat (GetNDOFsGrid e)],
          elemIsOwned := False,
          JacIsConsideredConstant := False,
          offsetDOFsSolGlobal := - 1\<rparr>)"

text \<open>
  One exchange of the round trip as the requesting rank sees it: a buffer of requests
  it sent, the rank that answered, and the three buffers that came back, of which the
  long one has fewer than \<open>2\<^sup>6\<^sup>3\<close> entries. The answers arrive in any order.
\<close>

type_synonym halo_exchange =
  "long list \<times> answering_rank \<times> (long list \<times> short list \<times> real list)"

definition exchange_wf :: "nat \<Rightarrow> halo_exchange list \<Rightarrow> bool" where
  "exchange_wf meshDim exch =
     list_all (\<lambda>(request, r, answer).
        haloAnswer meshDim r request = Inr answer \<and> length (fst answer) < 2 ^ 63) exch"

definition haloRecvBufs :: "halo_exchange list \<Rightarrow> (long list \<times> short list \<times> real list) list" where
  "haloRecvBufs exch = map (\<lambda>(request, r, answer). answer) exch"

text \<open>The halo point that the requesting rank makes of a node of the answer.\<close>

definition haloPointOf ::
  "(ulong \<rightharpoonup> nat) \<Rightarrow> (nat \<Rightarrow> nat \<Rightarrow> real) \<Rightarrow> nat \<Rightarrow> CPointFEM \<Rightarrow> unsignedLong2T \<Rightarrow> CPointFEM" where
  "haloPointOf globalPointIDToLocalInd coordOf meshDim dfltPoint thisNode =
     dfltPoint\<lparr>globalID := long0 thisNode,
               CPointFEM.periodIndexToDonor := ucast (long1 thisNode) - 1,
               CPointFEM.coor :=
                 map (coordOf (the (globalPointIDToLocalInd (long0 thisNode)))) [0..<meshDim]
                 @ drop meshDim (CPointFEM.coor dfltPoint)\<rparr>"

subsection \<open>Step 4: the global node IDs are converted to local ones\<close>

text \<open>
  The map \<^verbatim>\<open>mapGlobalPointIDToInd\<close> as it is first built: every point of
  \<^verbatim>\<open>meshPoints\<close> is entered under its global ID and its periodic index plus one.
\<close>

definition buildPointMap :: "CPointFEM list \<Rightarrow> (unsignedLong2T \<rightharpoonup> nat)" where
  "buildPointMap meshPoints =
     fold (\<lambda>i m. m(\<lparr>long0 = globalID (meshPoints ! i),
                      long1 = scast (CPointFEM.periodIndexToDonor (meshPoints ! i)) + 1\<rparr>
                    \<mapsto> i))
       [0..<length meshPoints] Map.empty"

text \<open>
  The loop over the nodes of one element, given as the list of the positions \<open>j\<close> that
  remain; \<open>perIndex1\<close> is the second component of the search item. The iterator that
  \<^verbatim>\<open>mapGlobalPointIDToInd.find\<close> returns is used without a test: when the item is not in
  the map, \<^verbatim>\<open>LLMI->second\<close> is a dereference of \<^verbatim>\<open>end()\<close>.
\<close>

fun translateNodesLoop ::
  "(unsignedLong2T \<rightharpoonup> nat) \<Rightarrow> ulong \<Rightarrow> nat list \<Rightarrow> ulong list \<Rightarrow> failure + ulong list" where
  "translateNodesLoop mapPointIDToInd perIndex1 [] nodeIDs' = Inr nodeIDs'"
| "translateNodesLoop mapPointIDToInd perIndex1 (j # js) nodeIDs' =
     (case rd nodeIDs' j of Inl f \<Rightarrow> Inl f
      | Inr thisNodeID \<Rightarrow>
     (case mapPointIDToInd \<lparr>long0 = thisNodeID, long1 = perIndex1\<rparr> of
        None \<Rightarrow> Inl Undefined
      | Some ind \<Rightarrow>
          translateNodesLoop mapPointIDToInd perIndex1 js (nodeIDs'[j := of_nat ind])))"

text \<open>
  The body of the loop over the surface elements of a marker: the volume element is
  converted with \<^verbatim>\<open>mapGlobalElemIDToInd\<close>, again without a test, and the nodes with the
  periodic component zero.
\<close>

definition convertSurfElem ::
  "(ulong \<rightharpoonup> nat) \<Rightarrow> (unsignedLong2T \<rightharpoonup> nat) \<Rightarrow> CSurfaceElementFEM
     \<Rightarrow> failure + CSurfaceElementFEM" where
  "convertSurfElem mapElemIDToInd mapPointIDToInd s =
     (case mapElemIDToInd (volElemID s) of None \<Rightarrow> Inl Undefined
      | Some ind \<Rightarrow>
     (case translateNodesLoop mapPointIDToInd 0 [0..<unat (CSurfaceElementFEM.nDOFsGrid s)]
             (CSurfaceElementFEM.nodeIDsGrid s) of Inl f \<Rightarrow> Inl f
      | Inr nodes \<Rightarrow>
          Inr (s\<lparr>volElemID := of_nat ind, CSurfaceElementFEM.nodeIDsGrid := nodes\<rparr>)))"

fun convertSurfLoop ::
  "(ulong \<rightharpoonup> nat) \<Rightarrow> (unsignedLong2T \<rightharpoonup> nat) \<Rightarrow> CSurfaceElementFEM list
     \<Rightarrow> failure + CSurfaceElementFEM list" where
  "convertSurfLoop mapElemIDToInd mapPointIDToInd [] = Inr []"
| "convertSurfLoop mapElemIDToInd mapPointIDToInd (s # surfElem) =
     (case convertSurfElem mapElemIDToInd mapPointIDToInd s of Inl f \<Rightarrow> Inl f
      | Inr s' \<Rightarrow>
     (case convertSurfLoop mapElemIDToInd mapPointIDToInd surfElem of Inl f \<Rightarrow> Inl f
      | Inr surfElem' \<Rightarrow> Inr (s' # surfElem')))"

fun convertBoundaries ::
  "(ulong \<rightharpoonup> nat) \<Rightarrow> (unsignedLong2T \<rightharpoonup> nat) \<Rightarrow> CSurfaceElementFEM list list
     \<Rightarrow> failure + CSurfaceElementFEM list list" where
  "convertBoundaries mapElemIDToInd mapPointIDToInd [] = Inr []"
| "convertBoundaries mapElemIDToInd mapPointIDToInd (surfElem # boundaries) =
     (case convertSurfLoop mapElemIDToInd mapPointIDToInd surfElem of Inl f \<Rightarrow> Inl f
      | Inr surfElem' \<Rightarrow>
     (case convertBoundaries mapElemIDToInd mapPointIDToInd boundaries of Inl f \<Rightarrow> Inl f
      | Inr boundaries' \<Rightarrow> Inr (surfElem' # boundaries')))"

text \<open>
  The last loop of the constructor, over all volume elements, owned and halo: the
  nodes are converted with the periodic index of the element plus one, through the map
  as the matching of the periodic points has left it.
\<close>

definition translateVolElem ::
  "(unsignedLong2T \<rightharpoonup> nat) \<Rightarrow> CVolumeElementFEM \<Rightarrow> failure + CVolumeElementFEM" where
  "translateVolElem mapPointIDToInd v =
     (case translateNodesLoop mapPointIDToInd (scast (periodIndexToDonor v) + 1)
             [0..<unat (CVolumeElementFEM.nDOFsGrid v)] (CVolumeElementFEM.nodeIDsGrid v)
        of Inl f \<Rightarrow> Inl f
      | Inr nodes \<Rightarrow> Inr (v\<lparr>CVolumeElementFEM.nodeIDsGrid := nodes\<rparr>))"

fun translateVolumeNodes ::
  "(unsignedLong2T \<rightharpoonup> nat) \<Rightarrow> CVolumeElementFEM list \<Rightarrow> failure + CVolumeElementFEM list" where
  "translateVolumeNodes mapPointIDToInd [] = Inr []"
| "translateVolumeNodes mapPointIDToInd (v # vol) =
     (case translateVolElem mapPointIDToInd v of Inl f \<Rightarrow> Inl f
      | Inr v' \<Rightarrow>
     (case translateVolumeNodes mapPointIDToInd vol of Inl f \<Rightarrow> Inl f
      | Inr vol' \<Rightarrow> Inr (v' # vol')))"

subsection \<open>A small grid for the examples\<close>

text \<open>
  Two line elements with the global IDs 10 and 11 on one rank of the original
  partitioning, which starts at element 10. Element 10 has the nodes 20 and 21, no
  neighbour on its first face and element 11 on its second; element 11 has the nodes
  21 and 22, element 10 on its first face and, through the periodic marker 0, element 10
  again on its second face.
\<close>

definition exampleElem10 :: CPrimalGridFEM where
  "exampleElem10 =
     \<lparr>GetColor = 0, GetVTK_Type = 3, GetNPolyGrid = 1, GetNPolySol = 1,
      GetNDOFsGrid = 2, GetNDOFsSol = 2, GetnFaces = 2,
      GetJacobianConsideredConstant = True, GetGlobalElemID = 10,
      GetGlobalOffsetDOFsSol = 0,
      GetNode = (\<lambda>j. [20, 21] ! j),
      GetNeighbor_Elements = (\<lambda>j. [- 1, 11] ! j),
      GetPeriodicIndex = (\<lambda>j. [- 1, - 1] ! j),
      GetJacobianConstantFace = (\<lambda>j. [True, True] ! j)\<rparr>"

definition exampleElem11 :: CPrimalGridFEM where
  "exampleElem11 =
     \<lparr>GetColor = 0, GetVTK_Type = 3, GetNPolyGrid = 1, GetNPolySol = 1,
      GetNDOFsGrid = 2, GetNDOFsSol = 2, GetnFaces = 2,
      GetJacobianConsideredConstant = True, GetGlobalElemID = 11,
      GetGlobalOffsetDOFsSol = 2,
      GetNode = (\<lambda>j. [21, 22] ! j),
      GetNeighbor_Elements = (\<lambda>j. [10, 10] ! j),
      GetPeriodicIndex = (\<lambda>j. [- 1, 0] ! j),
      GetJacobianConstantFace = (\<lambda>j. [True, True] ! j)\<rparr>"

definition exampleGeometry :: CGeometry where
  "exampleGeometry =
     \<lparr>elem = [exampleElem10, exampleElem11], starting_node_rank = 10,
      npoint_procs_rank = 2\<rparr>"

text \<open>
  A boundary element of one node at the free end of element 10, on the one marker of
  the grid; what a rank receives in the first exchange when both elements are sent to
  it, and when only element 11 is.
\<close>

definition exampleBound :: CPrimalGridBoundFEM where
  "exampleBound =
     \<lparr>CPrimalGridBoundFEM.GetVTK_Type = 1, CPrimalGridBoundFEM.GetNPolyGrid = 1,
      CPrimalGridBoundFEM.GetNDOFsGrid = 1, GetDomainElement = 10,
      CPrimalGridBoundFEM.GetGlobalElemID = 0,
      CPrimalGridBoundFEM.GetNode = (\<lambda>j. [20] ! j)\<rparr>"

definition exampleReceived :: "received_rank list" where
  "exampleReceived =
     [([exampleElem10, exampleElem11],
       [(20, [0, 0, 0]), (21, [1, 0, 0]), (22, [2, 0, 0])],
       [[exampleBound]])]"

definition exampleReceived11 :: "received_rank list" where
  "exampleReceived11 =
     [([exampleElem11], [(21, [1, 0, 0]), (22, [2, 0, 0])], [[]])]"

text \<open>
  The rank of the original partitioning that holds the two elements, as it answers
  requests for halo elements: its grid, its map from the global IDs of its nodes 20,
  21 and 22 to their local indices, and their coordinates. A point with every member
  zero stands for the default-constructed point.
\<close>

definition exampleAnswering :: answering_rank where
  "exampleAnswering =
     (exampleGeometry, [20 \<mapsto> 0, 21 \<mapsto> 1, 22 \<mapsto> 2],
      \<lambda>ind l. [[0, 0, 0], [1, 0, 0], [2, 0, 0]] ! ind ! l)"

definition zeroPoint :: CPointFEM where
  "zeroPoint = \<lparr>globalID = 0, periodIndexToDonor = 0, CPointFEM.coor = [0, 0, 0]\<rparr>"

text \<open>The three points of the example grid on the rank, and four halo points that
  arrive: node 21 again, a new node 30 twice, and node 20 through the periodic
  marker 0.\<close>

definition exampleMeshPoints :: "CPointFEM list" where
  "exampleMeshPoints =
     [\<lparr>globalID = 20, periodIndexToDonor = - 1, CPointFEM.coor = [0, 0, 0]\<rparr>,
      \<lparr>globalID = 21, periodIndexToDonor = - 1, CPointFEM.coor = [1, 0, 0]\<rparr>,
      \<lparr>globalID = 22, periodIndexToDonor = - 1, CPointFEM.coor = [2, 0, 0]\<rparr>]"

definition exampleHaloPoints :: "CPointFEM list" where
  "exampleHaloPoints =
     [\<lparr>globalID = 21, periodIndexToDonor = - 1, CPointFEM.coor = [1, 0, 0]\<rparr>,
      \<lparr>globalID = 30, periodIndexToDonor = - 1, CPointFEM.coor = [5, 0, 0]\<rparr>,
      \<lparr>globalID = 20, periodIndexToDonor = 0, CPointFEM.coor = [0, 0, 0]\<rparr>,
      \<lparr>globalID = 30, periodIndexToDonor = - 1, CPointFEM.coor = [5, 0, 0]\<rparr>]"


text \<open>
  A grid of the one line element 10 with the nodes 20 and 21 and no neighbour, and a
  boundary element of this element that names the node 99, which is no node of the
  grid; what a rank receives when the element is sent to it.
\<close>

definition exampleElemAlone :: CPrimalGridFEM where
  "exampleElemAlone =
     \<lparr>GetColor = 0, GetVTK_Type = 3, GetNPolyGrid = 1, GetNPolySol = 1,
      GetNDOFsGrid = 2, GetNDOFsSol = 2, GetnFaces = 2,
      GetJacobianConsideredConstant = True, GetGlobalElemID = 10,
      GetGlobalOffsetDOFsSol = 0,
      GetNode = (\<lambda>j. [20, 21] ! j),
      GetNeighbor_Elements = (\<lambda>j. [- 1, - 1] ! j),
      GetPeriodicIndex = (\<lambda>j. [- 1, - 1] ! j),
      GetJacobianConstantFace = (\<lambda>j. [True, True] ! j)\<rparr>"

definition exampleBoundStray :: CPrimalGridBoundFEM where
  "exampleBoundStray =
     \<lparr>CPrimalGridBoundFEM.GetVTK_Type = 1, CPrimalGridBoundFEM.GetNPolyGrid = 1,
      CPrimalGridBoundFEM.GetNDOFsGrid = 1, GetDomainElement = 10,
      CPrimalGridBoundFEM.GetGlobalElemID = 0,
      CPrimalGridBoundFEM.GetNode = (\<lambda>j. [99] ! j)\<rparr>"

definition exampleReceivedStray :: "received_rank list" where
  "exampleReceivedStray =
     [([exampleElemAlone], [(20, [0, 0, 0]), (21, [1, 0, 0])], [[exampleBoundStray]])]"
section \<open>Properties\<close>

subsection \<open>Facts about machine integers and ranges used in the examples\<close>

lemma ucast_long_minus_1 [simp]: "(ucast (- 1 :: long) :: short) = - 1"
  by (rule bit_word_eqI) (simp add: bit_simps)

lemma upt_0_2: "[0..<2] = [0, Suc 0]"
  by (simp add: numeral_2_eq_2)

lemma sint_of_nat_long: "n < 2 ^ 63 \<Longrightarrow> sint (of_nat n :: long) = int n"
  by (simp add: signed_of_nat signed_take_bit_int_eq_self)

subsection \<open>Sorting and removing duplicates under a linear key\<close>

text \<open>When \<^verbatim>\<open>operator<\<close> and \<^verbatim>\<open>operator==\<close> compare a key of the elements in a
  linear order, the sort is the library's \<open>sort_key\<close>, and \<^verbatim>\<open>unique\<close> after it
  leaves a list that increases strictly.\<close>

lemma std_sort_insert_key:
  fixes k :: "'a \<Rightarrow> 'b::linorder"
  assumes "\<And>a b. lt a b = (k a < k b)"
  shows "std_sort_insert lt x ys = insort_key k x ys"
  by (induction ys) (auto simp: assms)

lemma std_sort_key:
  fixes k :: "'a \<Rightarrow> 'b::linorder"
  assumes "\<And>a b. lt a b = (k a < k b)"
  shows "std_sort lt xs = sort_key k xs"
  by (induction xs) (simp_all add: std_sort_def std_sort_insert_key [of lt k, OF assms])

lemma std_unique_subset: "set (std_unique eq xs) \<subseteq> set xs"
  by (induction eq xs rule: std_unique.induct) auto

lemma std_unique_id:
  fixes k :: "'a \<Rightarrow> 'b::linorder"
  assumes "\<And>a b. eq a b = (k a = k b)" and "sorted_wrt (\<lambda>a b. k a < k b) xs"
  shows "std_unique eq xs = xs"
  using assms by (induction eq xs rule: std_unique.induct) auto

lemma std_unique_strict:
  fixes k :: "'a \<Rightarrow> 'b::linorder"
  assumes "\<And>a b. eq a b = (k a = k b)" and "sorted (map k xs)"
  shows "sorted_wrt (\<lambda>a b. k a < k b) (std_unique eq xs)"
  using assms
proof (induction eq xs rule: std_unique.induct)
  case (3 eq x y xs)
  show ?case
  proof (cases "eq x y")
    case True
    with 3 show ?thesis by simp
  next
    case False
    with "3.prems" have lt: "k x < k y" by auto
    have "\<forall>z\<in>set (std_unique eq (y # xs)). k x < k z"
    proof
      fix z assume "z \<in> set (std_unique eq (y # xs))"
      then have "z \<in> set (y # xs)" using std_unique_subset by fastforce
      with "3.prems"(2) have "k y \<le> k z" by auto
      with lt show "k x < k z" by simp
    qed
    moreover have "sorted (map k (y # xs))" using "3.prems"(2) by simp
    then have "sorted_wrt (\<lambda>a b. k a < k b) (std_unique eq (y # xs))"
      by (rule "3.IH"(2) [OF False "3.prems"(1)])
    ultimately show ?thesis using False by simp
  qed
qed simp_all

lemma std_sort_id:
  fixes k :: "'a \<Rightarrow> 'b::linorder"
  assumes "\<And>a b. lt a b = (k a < k b)" and "sorted_wrt (\<lambda>a b. k a < k b) xs"
  shows "std_sort lt xs = xs"
proof -
  have "sorted_wrt (<) (map k xs)" using assms(2) by (simp add: sorted_wrt_map)
  then have "sorted (map k xs)" by (simp add: strict_sorted_iff)
  then show ?thesis by (simp add: std_sort_key [of lt k, OF assms(1)] sort_key_id_if_sorted)
qed

text \<open>On a vector sorted by the key, \<^verbatim>\<open>lower_bound\<close> returns the first position whose
  key is not below the key of the value, and \<^verbatim>\<open>binary_search\<close> says whether some
  element has the key of the value.\<close>

lemma std_lower_bound_range:
  fixes k :: "'a \<Rightarrow> 'b::linorder"
  assumes lt: "\<And>a b. lt a b = (k a < k b)"
    and srt: "sorted (map k xs)"
  shows "first + len \<le> length xs \<Longrightarrow>
     first \<le> std_lower_bound lt xs v first len
     \<and> std_lower_bound lt xs v first len \<le> first + len
     \<and> (\<forall>i. first \<le> i \<and> i < std_lower_bound lt xs v first len \<longrightarrow> k (xs ! i) < k v)
     \<and> (\<forall>i. std_lower_bound lt xs v first len \<le> i \<and> i < first + len \<longrightarrow> k v \<le> k (xs ! i))"
proof (induction len arbitrary: first rule: less_induct)
  case (less len)
  have mono: "k (xs ! i) \<le> k (xs ! j)" if "i \<le> j" "j < length xs" for i j
    using sorted_nth_mono [OF srt, of i j] that by simp
  show ?case
  proof (cases "len = 0")
    case True
    then have "std_lower_bound lt xs v first len = first"
      by (subst std_lower_bound.simps) simp
    with True show ?thesis by auto
  next
    case False
    define half where "half = len div 2"
    define middle where "middle = first + half"
    have half: "half < len" using False by (simp add: half_def)
    have mid: "middle < length xs" using less.prems half by (simp add: middle_def)
    show ?thesis
    proof (cases "lt (xs ! middle) v")
      case True
      have eq: "std_lower_bound lt xs v first len
          = std_lower_bound lt xs v (middle + 1) (len - half - 1)"
        using False True
        by (subst std_lower_bound.simps) (simp add: Let_def half_def middle_def)
      have "middle + 1 + (len - half - 1) \<le> length xs"
        using less.prems half by (simp add: middle_def)
      from less.IH [OF _ this] half
      have IH: "middle + 1 \<le> std_lower_bound lt xs v (middle + 1) (len - half - 1)"
        "std_lower_bound lt xs v (middle + 1) (len - half - 1) \<le> middle + 1 + (len - half - 1)"
        "\<And>i. middle + 1 \<le> i \<Longrightarrow> i < std_lower_bound lt xs v (middle + 1) (len - half - 1)
            \<Longrightarrow> k (xs ! i) < k v"
        "\<And>i. std_lower_bound lt xs v (middle + 1) (len - half - 1) \<le> i
            \<Longrightarrow> i < middle + 1 + (len - half - 1) \<Longrightarrow> k v \<le> k (xs ! i)"
        by auto
      have below: "k (xs ! i) < k v" if "first \<le> i" "i \<le> middle" for i
        using mono [OF that(2) mid] True by (simp add: lt)
      have e: "middle + 1 + (len - half - 1) = first + len"
        using half by (simp add: middle_def)
      show ?thesis
        unfolding eq
      proof (intro conjI allI impI)
        show "first \<le> std_lower_bound lt xs v (middle + 1) (len - half - 1)"
          using IH(1) by (simp add: middle_def)
        show "std_lower_bound lt xs v (middle + 1) (len - half - 1) \<le> first + len"
          using IH(2) e by simp
      next
        fix i assume "first \<le> i \<and> i < std_lower_bound lt xs v (middle + 1) (len - half - 1)"
        then show "k (xs ! i) < k v"
          using below [of i] IH(3) [of i] by (cases "i \<le> middle") auto
      next
        fix i assume "std_lower_bound lt xs v (middle + 1) (len - half - 1) \<le> i
            \<and> i < first + len"
        then show "k v \<le> k (xs ! i)" using IH(4) [of i] e by simp
      qed
    next
      case nlt: False
      have eq: "std_lower_bound lt xs v first len = std_lower_bound lt xs v first half"
        using False nlt
        by (subst std_lower_bound.simps) (simp add: Let_def half_def middle_def)
      have "first + half \<le> length xs" using less.prems half by simp
      from less.IH [OF half this]
      have IH: "first \<le> std_lower_bound lt xs v first half"
        "std_lower_bound lt xs v first half \<le> first + half"
        "\<And>i. first \<le> i \<Longrightarrow> i < std_lower_bound lt xs v first half \<Longrightarrow> k (xs ! i) < k v"
        "\<And>i. std_lower_bound lt xs v first half \<le> i \<Longrightarrow> i < first + half
            \<Longrightarrow> k v \<le> k (xs ! i)"
        by auto
      have above: "k v \<le> k (xs ! i)" if "middle \<le> i" "i < first + len" for i
      proof -
        from that less.prems have "i < length xs" by simp
        from mono [OF that(1) this] nlt show ?thesis by (simp add: lt not_less)
      qed
      show ?thesis
        unfolding eq
      proof (intro conjI allI impI)
        show "first \<le> std_lower_bound lt xs v first half" by (rule IH(1))
        show "std_lower_bound lt xs v first half \<le> first + len"
          using IH(2) half by simp
      next
        fix i assume "first \<le> i \<and> i < std_lower_bound lt xs v first half"
        then show "k (xs ! i) < k v" using IH(3) [of i] by simp
      next
        fix i assume "std_lower_bound lt xs v first half \<le> i \<and> i < first + len"
        then show "k v \<le> k (xs ! i)"
          using IH(4) [of i] above [of i] by (cases "i < first + half") (auto simp: middle_def)
      qed
    qed
  qed
qed

lemma std_binary_search_iff:
  fixes k :: "'a \<Rightarrow> 'b::linorder"
  assumes lt: "\<And>a b. lt a b = (k a < k b)"
    and srt: "sorted (map k xs)"
  shows "std_binary_search lt xs v \<longleftrightarrow> (\<exists>x\<in>set xs. k x = k v)"
proof -
  define r where "r = std_lower_bound lt xs v 0 (length xs)"
  from std_lower_bound_range [of lt k xs 0 "length xs" v, OF lt srt]
  have r: "r \<le> length xs" "\<And>i. i < r \<Longrightarrow> k (xs ! i) < k v"
    "\<And>i. r \<le> i \<Longrightarrow> i < length xs \<Longrightarrow> k v \<le> k (xs ! i)"
    by (auto simp: r_def)
  have bs: "std_binary_search lt xs v \<longleftrightarrow> r \<noteq> length xs \<and> k (xs ! r) \<le> k v"
    by (simp add: std_binary_search_def r_def [symmetric] lt not_less)
  show ?thesis
  proof
    assume "std_binary_search lt xs v"
    with bs r(1) have "r < length xs" "k (xs ! r) \<le> k v" by auto
    with r(3) [of r] have "k (xs ! r) = k v" by simp
    with \<open>r < length xs\<close> show "\<exists>x\<in>set xs. k x = k v" by (intro bexI [of _ "xs ! r"]) auto
  next
    assume "\<exists>x\<in>set xs. k x = k v"
    then obtain i where i: "i < length xs" "k (xs ! i) = k v"
      by (auto simp: in_set_conv_nth)
    have "r \<le> i" using r(2) [of i] i(2) by (cases "i < r") auto
    with i(1) have "r < length xs" by simp
    moreover have "k (xs ! r) \<le> k v"
      using sorted_nth_mono [OF srt, of r i] \<open>r \<le> i\<close> i by simp
    ultimately show "std_binary_search lt xs v" by (simp add: bs)
  qed
qed

subsection \<open>Rounding\<close>

lemma round_ties_even_of_int [simp]: "round_ties_even (of_int n) = n"
  by (simp add: round_ties_even_def)

lemma su2double_ulp_minus [simp]: "su2double_ulp (- x) = su2double_ulp x"
  by (simp add: su2double_ulp_def)

lemma su2double_round_minus: "su2double_round (- x) = - su2double_round x"
  by (simp add: su2double_round_def sgn_minus)

lemma su2double_sub_commute: "su2double_sub d c = - su2double_sub c d"
  using su2double_round_minus [of "c - d"] by (simp add: su2double_sub_def)

lemma abs_su2double_sub_commute: "\<bar>su2double_sub d c\<bar> = \<bar>su2double_sub c d\<bar>"
  by (simp add: su2double_sub_commute [of d c])

lemma su2double_round_0 [simp]: "su2double_round 0 = 0"
  by (simp add: su2double_round_def)

text \<open>A number with a significand of at most 53 bits is not changed by rounding.\<close>

lemma su2double_round_exact:
  assumes x: "x = of_int m * 2 powi k" and m: "\<bar>m\<bar> < 2 ^ 53" and k: "- 1074 \<le> k"
  shows "su2double_round x = x"
proof (cases "m = 0")
  case True
  then show ?thesis by (simp add: x)
next
  case False
  define q where "q = max (\<lfloor>log 2 \<bar>x\<bar>\<rfloor> - 52) (- 1074)"
  have ax: "\<bar>x\<bar> = of_int \<bar>m\<bar> * 2 powi k" by (simp add: x abs_mult)
  have pos: "0 < \<bar>x\<bar>" using False by (simp add: x)
  have "of_int \<bar>m\<bar> < (2 :: real) ^ 53" using m by (metis of_int_less_numeral_power_cancel_iff)
  then have "\<bar>x\<bar> < 2 ^ 53 * 2 powi k" unfolding ax by (simp add: mult_strict_right_mono)
  also have "\<dots> = 2 powi (53 + k)" by (simp add: power_int_add)
  also have "\<dots> = 2 powr (of_int (53 + k))"
    by (rule powr_real_of_int' [symmetric]) simp_all
  finally have "log 2 \<bar>x\<bar> < of_int (53 + k)" using pos by (simp add: log_less_iff)
  then have "\<lfloor>log 2 \<bar>x\<bar>\<rfloor> < 53 + k" by (simp add: floor_less_iff)
  then have qk: "q \<le> k" using k by (simp add: q_def)
  have ulp: "su2double_ulp x = 2 powi q" by (simp add: su2double_ulp_def q_def)
  have "(2 :: real) powi k = 2 powi (k - q) * 2 powi q"
    by (simp add: power_int_add [symmetric])
  also have "(2 :: real) powi (k - q) = 2 ^ nat (k - q)" using qk by (simp add: power_int_def)
  finally have pk: "(2 :: real) powi k = 2 ^ nat (k - q) * 2 powi q" .
  have "\<bar>x\<bar> / 2 powi q = of_int (\<bar>m\<bar> * 2 ^ nat (k - q))"
    unfolding ax pk by simp
  then have "su2double_round x = sgn x * (of_int (\<bar>m\<bar> * 2 ^ nat (k - q)) * 2 powi q)"
    by (simp only: su2double_round_def ulp round_ties_even_of_int)
  also have "\<dots> = sgn x * \<bar>x\<bar>" unfolding ax pk by simp
  also have "\<dots> = x" by (simp add: sgn_mult_abs)
  finally show ?thesis .
qed

lemma su2double_round_small:
  "su2double_round 1 = 1" "su2double_round (- 1) = - 1"
  "su2double_round 2 = 2" "su2double_round (- 2) = - 2"
  "su2double_round (1 / 2) = 1 / 2" "su2double_round (- (1 / 2)) = - (1 / 2)"
  using su2double_round_exact [of 1 1 0] su2double_round_exact [of "- 1" "- 1" 0]
    su2double_round_exact [of 2 2 0] su2double_round_exact [of "- 2" "- 2" 0]
    su2double_round_exact [of "1 / 2" 1 "- 1"] su2double_round_exact [of "- (1 / 2)" "- 1" "- 1"]
  by simp_all

lemma su2double_ulp_binade:
  assumes "2 powi e \<le> \<bar>x\<bar>" and "\<bar>x\<bar> < 2 powi (e + 1)"
  shows "su2double_ulp x = 2 powi (max (e - 52) (- 1074))"
proof -
  have pos: "0 < \<bar>x\<bar>" using assms(1) by (smt (verit) zero_less_power_int)
  have p: "(2 :: real) powr (of_int n) = 2 powi n" for n
    by (rule powr_real_of_int') simp_all
  have "of_int e \<le> log 2 \<bar>x\<bar>" using assms(1) pos by (simp add: le_log_iff p)
  moreover have "log 2 \<bar>x\<bar> < of_int (e + 1)" using assms(2) pos
    by (simp only: log_less_iff [OF _ pos] p)
  ultimately have "\<lfloor>log 2 \<bar>x\<bar>\<rfloor> = e" by (simp add: floor_eq_iff)
  then show ?thesis by (simp add: su2double_ulp_def)
qed

text \<open>A difference that is rounded: \<open>-2\<^sup>-\<^sup>6\<^sup>0 - 1\<close> has no significand of 53 bits, and
  the machine computes \<open>-1\<close>.\<close>

lemma su2double_sub_rounds:
  "su2double_sub (- (1 / 2 ^ 60)) 1 = - 1"
proof -
  let ?x = "- (1 / 2 ^ 60) - 1 :: real"
  have ulp: "su2double_ulp ?x = 2 powi (- 52)"
    using su2double_ulp_binade [of 0 ?x] by simp
  have q: "\<bar>?x\<bar> / 2 powi (- 52) = 2 ^ 52 + 1 / 256"
    by (simp add: power_int_minus field_simps)
  have f: "\<lfloor>2 ^ 52 + 1 / 256 :: real\<rfloor> = 2 ^ 52"
    by (simp add: floor_eq_iff)
  have r: "round_ties_even (2 ^ 52 + 1 / 256) = 2 ^ 52"
    by (simp add: round_ties_even_def f Let_def)
  have s: "sgn ?x = - 1" by (simp add: sgn_if)
  show ?thesis
    by (simp only: su2double_sub_def su2double_round_def ulp q r s)
      (simp add: power_int_minus)
qed

subsection \<open>CPointCompare::operator<\<close>

lemma CPointCompare_loop_iff:
  "CPointCompare_loop tol n c d l \<longleftrightarrow>
     (\<exists>i. l \<le> i \<and> i < n \<and> \<bar>su2double_sub (c ! i) (d ! i)\<bar> > tol \<and> c ! i < d ! i \<and>
          (\<forall>k. l \<le> k \<and> k < i \<longrightarrow> \<bar>su2double_sub (c ! k) (d ! k)\<bar> \<le> tol))"
proof (induction tol n c d l rule: CPointCompare_loop.induct)
  case (1 tol n c d l)
  show ?case
  proof (cases "l < n")
    case False
    then show ?thesis
      by (subst CPointCompare_loop.simps) auto
  next
    case inside: True
    show ?thesis
    proof (cases "\<bar>su2double_sub (c ! l) (d ! l)\<bar> > tol")
      case True
      have "CPointCompare_loop tol n c d l = (c ! l < d ! l)"
        using inside True by (subst CPointCompare_loop.simps) simp
      moreover have "(c ! l < d ! l) \<longleftrightarrow>
        (\<exists>i. l \<le> i \<and> i < n \<and> \<bar>su2double_sub (c ! i) (d ! i)\<bar> > tol \<and> c ! i < d ! i \<and>
          (\<forall>k. l \<le> k \<and> k < i \<longrightarrow> \<bar>su2double_sub (c ! k) (d ! k)\<bar> \<le> tol))" (is "?L \<longleftrightarrow> ?R")
      proof
        assume ?L
        with inside True show ?R by (intro exI [of _ l]) auto
      next
        assume ?R
        then obtain i where i: "l \<le> i" "i < n" "c ! i < d ! i"
          "\<forall>k. l \<le> k \<and> k < i \<longrightarrow> \<bar>su2double_sub (c ! k) (d ! k)\<bar> \<le> tol" by blast
        have "i = l"
        proof (rule ccontr)
          assume "i \<noteq> l"
          with i(1) have "l < i" by simp
          with i(4) have "\<bar>su2double_sub (c ! l) (d ! l)\<bar> \<le> tol" by simp
          with True show False by simp
        qed
        with i(3) show ?L by simp
      qed
      ultimately show ?thesis by simp
    next
      case False
      have step: "CPointCompare_loop tol n c d l = CPointCompare_loop tol n c d (Suc l)"
        using inside False by (subst CPointCompare_loop.simps) simp
      have "(\<exists>i. Suc l \<le> i \<and> i < n \<and> \<bar>su2double_sub (c ! i) (d ! i)\<bar> > tol \<and> c ! i < d ! i \<and>
          (\<forall>k. Suc l \<le> k \<and> k < i \<longrightarrow> \<bar>su2double_sub (c ! k) (d ! k)\<bar> \<le> tol)) \<longleftrightarrow>
        (\<exists>i. l \<le> i \<and> i < n \<and> \<bar>su2double_sub (c ! i) (d ! i)\<bar> > tol \<and> c ! i < d ! i \<and>
          (\<forall>k. l \<le> k \<and> k < i \<longrightarrow> \<bar>su2double_sub (c ! k) (d ! k)\<bar> \<le> tol))" (is "?L \<longleftrightarrow> ?R")
      proof
        assume ?L
        then obtain i where i: "Suc l \<le> i" "i < n" "\<bar>su2double_sub (c ! i) (d ! i)\<bar> > tol" "c ! i < d ! i"
          "\<forall>k. Suc l \<le> k \<and> k < i \<longrightarrow> \<bar>su2double_sub (c ! k) (d ! k)\<bar> \<le> tol" by blast
        have "\<forall>k. l \<le> k \<and> k < i \<longrightarrow> \<bar>su2double_sub (c ! k) (d ! k)\<bar> \<le> tol"
        proof (intro allI impI)
          fix k assume k: "l \<le> k \<and> k < i"
          show "\<bar>su2double_sub (c ! k) (d ! k)\<bar> \<le> tol"
          proof (cases "k = l")
            case True with False show ?thesis by simp
          next
            case False with k i(5) show ?thesis by simp
          qed
        qed
        with i show ?R by (intro exI [of _ i]) auto
      next
        assume ?R
        then obtain i where i: "l \<le> i" "i < n" "\<bar>su2double_sub (c ! i) (d ! i)\<bar> > tol" "c ! i < d ! i"
          "\<forall>k. l \<le> k \<and> k < i \<longrightarrow> \<bar>su2double_sub (c ! k) (d ! k)\<bar> \<le> tol" by blast
        from i(3) False have "i \<noteq> l" by auto
        with i(1) have "Suc l \<le> i" by simp
        with i show ?L by (intro exI [of _ i]) auto
      qed
      with step "1.IH" [OF inside False] show ?thesis by simp
    qed
  qed
qed

lemma CPointCompare_less_iff:
  assumes "nDim a = nDim b"
  shows "CPointCompare_less a b \<longleftrightarrow>
     (\<exists>i<nDim a.
        \<bar>su2double_sub (CPointCompare.coor a ! i) (CPointCompare.coor b ! i)\<bar> > min (tolForMatching a) (tolForMatching b) \<and>
        CPointCompare.coor a ! i < CPointCompare.coor b ! i \<and>
        (\<forall>k<i. \<bar>su2double_sub (CPointCompare.coor a ! k) (CPointCompare.coor b ! k)\<bar> \<le> min (tolForMatching a) (tolForMatching b)))"
  using assms by (simp add: CPointCompare_less_def CPointCompare_loop_iff)

lemma all_within_tol_iff:
  "all_within_tol a b \<longleftrightarrow>
     (\<forall>l<nDim a. \<bar>CPointCompare.coor a ! l - CPointCompare.coor b ! l\<bar> \<le> min (tolForMatching a) (tolForMatching b))"
  by (auto simp: all_within_tol_def list_all_iff)

lemma computed_within_tol_iff:
  "computed_within_tol a b \<longleftrightarrow>
     (\<forall>l<nDim a. \<bar>su2double_sub (CPointCompare.coor a ! l) (CPointCompare.coor b ! l)\<bar>
        \<le> min (tolForMatching a) (tolForMatching b))"
  by (auto simp: computed_within_tol_def list_all_iff)

text \<open>
  Claim C7, as amended. For two well-formed points of equal dimension, with
  \<open>tol\<close> the smaller of the two tolerances: \<^verbatim>\<open>operator<\<close> returns the comparison of the
  first coordinate pair whose difference, as the machine computes it, is more than
  \<open>tol\<close> in absolute value; every pair before it whose computed difference is at most
  \<open>tol\<close> is passed over as equal, whatever its values are. When the computed
  difference of every pair is at most \<open>tol\<close>, neither point is less than the other.
\<close>

theorem CPointCompare_less_first_beyond_tol:
  assumes "nDim a = nDim b" and "CPointCompare_wf a" and "CPointCompare_wf b"
  shows "(CPointCompare_less a b \<longleftrightarrow>
           (\<exists>i<nDim a.
              \<bar>su2double_sub (CPointCompare.coor a ! i) (CPointCompare.coor b ! i)\<bar> > min (tolForMatching a) (tolForMatching b) \<and>
              CPointCompare.coor a ! i < CPointCompare.coor b ! i \<and>
              (\<forall>k<i. \<bar>su2double_sub (CPointCompare.coor a ! k) (CPointCompare.coor b ! k)\<bar> \<le> min (tolForMatching a) (tolForMatching b))))
       \<and> (computed_within_tol a b \<longrightarrow> \<not> CPointCompare_less a b \<and> \<not> CPointCompare_less b a)"
proof (intro conjI impI)
  show "CPointCompare_less a b \<longleftrightarrow>
           (\<exists>i<nDim a.
              \<bar>su2double_sub (CPointCompare.coor a ! i) (CPointCompare.coor b ! i)\<bar> > min (tolForMatching a) (tolForMatching b) \<and>
              CPointCompare.coor a ! i < CPointCompare.coor b ! i \<and>
              (\<forall>k<i. \<bar>su2double_sub (CPointCompare.coor a ! k) (CPointCompare.coor b ! k)\<bar> \<le> min (tolForMatching a) (tolForMatching b)))"
    by (rule CPointCompare_less_iff [OF assms(1)])
next
  assume w: "computed_within_tol a b"
  then have le: "\<And>l. l < nDim a \<Longrightarrow> \<bar>su2double_sub (CPointCompare.coor a ! l) (CPointCompare.coor b ! l)\<bar> \<le> min (tolForMatching a) (tolForMatching b)"
    by (simp add: computed_within_tol_iff)
  show "\<not> CPointCompare_less a b"
  proof
    assume "CPointCompare_less a b"
    then obtain i where "i < nDim a" "\<bar>su2double_sub (CPointCompare.coor a ! i) (CPointCompare.coor b ! i)\<bar> > min (tolForMatching a) (tolForMatching b)"
      unfolding CPointCompare_less_iff [OF assms(1)] by blast
    with le [of i] show False by linarith
  qed
next
  assume w: "computed_within_tol a b"
  then have le: "\<And>l. l < nDim a \<Longrightarrow> \<bar>su2double_sub (CPointCompare.coor a ! l) (CPointCompare.coor b ! l)\<bar> \<le> min (tolForMatching a) (tolForMatching b)"
    by (simp add: computed_within_tol_iff)
  show "\<not> CPointCompare_less b a"
  proof
    assume "CPointCompare_less b a"
    then obtain i where i: "i < nDim b"
      "\<bar>su2double_sub (CPointCompare.coor b ! i) (CPointCompare.coor a ! i)\<bar> > min (tolForMatching b) (tolForMatching a)"
      unfolding CPointCompare_less_iff [OF assms(1) [symmetric]] by blast
    have "\<bar>su2double_sub (CPointCompare.coor b ! i) (CPointCompare.coor a ! i)\<bar> = \<bar>su2double_sub (CPointCompare.coor a ! i) (CPointCompare.coor b ! i)\<bar>" by (rule abs_su2double_sub_commute)
    moreover have "min (tolForMatching b) (tolForMatching a)
        = min (tolForMatching a) (tolForMatching b)" by (rule min.commute)
    ultimately have "\<bar>su2double_sub (CPointCompare.coor a ! i) (CPointCompare.coor b ! i)\<bar>
        > min (tolForMatching a) (tolForMatching b)"
      using i(2) by (simp only:)
    moreover from i(1) assms(1) have "i < nDim a" by simp
    ultimately show False using le [of i] by linarith
  qed
qed

text \<open>Witness for C7 as amended: two points of dimension 3 whose coordinates all lie
  within the tolerance, and two points whose first coordinates differ by more than the
  tolerance 1 while the difference that the machine computes is \<open>-1\<close>.\<close>

theorem CPointCompare_less_first_beyond_tol_witness:
  "nDim \<lparr>nDim = 3, nodeID = 0, tolForMatching = 1, CPointCompare.coor = [0, 5, 0]\<rparr>
     = nDim \<lparr>nDim = 3, nodeID = 1, tolForMatching = 2, CPointCompare.coor = [1 / 2, 5, 1]\<rparr>
   \<and> CPointCompare_wf \<lparr>nDim = 3, nodeID = 0, tolForMatching = 1, CPointCompare.coor = [0, 5, 0]\<rparr>
   \<and> CPointCompare_wf \<lparr>nDim = 3, nodeID = 1, tolForMatching = 2, CPointCompare.coor = [1 / 2, 5, 1]\<rparr>
   \<and> computed_within_tol \<lparr>nDim = 3, nodeID = 0, tolForMatching = 1, CPointCompare.coor = [0, 5, 0]\<rparr>
        \<lparr>nDim = 3, nodeID = 1, tolForMatching = 2, CPointCompare.coor = [1 / 2, 5, 1]\<rparr>
   \<and> \<not> CPointCompare_less \<lparr>nDim = 3, nodeID = 0, tolForMatching = 1, CPointCompare.coor = [0, 5, 0]\<rparr>
        \<lparr>nDim = 3, nodeID = 1, tolForMatching = 2, CPointCompare.coor = [1 / 2, 5, 1]\<rparr>
   \<and> \<not> CPointCompare_less \<lparr>nDim = 3, nodeID = 1, tolForMatching = 2, CPointCompare.coor = [1 / 2, 5, 1]\<rparr>
        \<lparr>nDim = 3, nodeID = 0, tolForMatching = 1, CPointCompare.coor = [0, 5, 0]\<rparr>
   \<and> computed_within_tol \<lparr>nDim = 3, nodeID = 2, tolForMatching = 1, CPointCompare.coor = [- (1 / 2 ^ 60), 0, 0]\<rparr>
        \<lparr>nDim = 3, nodeID = 3, tolForMatching = 1, CPointCompare.coor = [1, 0, 0]\<rparr>
   \<and> \<not> all_within_tol \<lparr>nDim = 3, nodeID = 2, tolForMatching = 1, CPointCompare.coor = [- (1 / 2 ^ 60), 0, 0]\<rparr>
        \<lparr>nDim = 3, nodeID = 3, tolForMatching = 1, CPointCompare.coor = [1, 0, 0]\<rparr>
   \<and> \<not> CPointCompare_less \<lparr>nDim = 3, nodeID = 2, tolForMatching = 1, CPointCompare.coor = [- (1 / 2 ^ 60), 0, 0]\<rparr>
        \<lparr>nDim = 3, nodeID = 3, tolForMatching = 1, CPointCompare.coor = [1, 0, 0]\<rparr>
   \<and> \<not> CPointCompare_less \<lparr>nDim = 3, nodeID = 3, tolForMatching = 1, CPointCompare.coor = [1, 0, 0]\<rparr>
        \<lparr>nDim = 3, nodeID = 2, tolForMatching = 1, CPointCompare.coor = [- (1 / 2 ^ 60), 0, 0]\<rparr>"
proof -
  let ?a = "\<lparr>nDim = 3, nodeID = 0, tolForMatching = 1, CPointCompare.coor = [0, 5, 0]\<rparr>"
  let ?b = "\<lparr>nDim = 3, nodeID = 1, tolForMatching = 2, CPointCompare.coor = [1 / 2, 5, 1]\<rparr>"
  let ?p = "\<lparr>nDim = 3, nodeID = 2, tolForMatching = 1, CPointCompare.coor = [- (1 / 2 ^ 60), 0, 0]\<rparr>"
  let ?q = "\<lparr>nDim = 3, nodeID = 3, tolForMatching = 1, CPointCompare.coor = [1, 0, 0]\<rparr>"
  have d: "nDim ?a = nDim ?b" by simp
  have wa: "CPointCompare_wf ?a" by (simp add: CPointCompare_wf_def)
  have wb: "CPointCompare_wf ?b" by (simp add: CPointCompare_wf_def)
  have w: "computed_within_tol ?a ?b"
    by (auto simp: computed_within_tol_iff less_Suc_eq numeral_3_eq_3 su2double_sub_def
        su2double_round_small)
  from CPointCompare_less_first_beyond_tol [OF d wa wb] w
  have r1: "\<not> CPointCompare_less ?a ?b \<and> \<not> CPointCompare_less ?b ?a" by blast
  have d': "nDim ?p = nDim ?q" by simp
  have wp: "CPointCompare_wf ?p" by (simp add: CPointCompare_wf_def)
  have wq: "CPointCompare_wf ?q" by (simp add: CPointCompare_wf_def)
  have w': "computed_within_tol ?p ?q"
    using su2double_sub_rounds
    by (auto simp: computed_within_tol_iff less_Suc_eq numeral_3_eq_3 su2double_sub_def)
  have nw: "\<not> all_within_tol ?p ?q"
    by (simp add: all_within_tol_def numeral_3_eq_3)
  from CPointCompare_less_first_beyond_tol [OF d' wp wq] w'
  have r2: "\<not> CPointCompare_less ?p ?q \<and> \<not> CPointCompare_less ?q ?p" by blast
  from d wa wb w r1 w' nw r2 show ?thesis by blast
qed

text \<open>Counterexample to C7 as stated: the two points do not agree within the tolerance
  in every coordinate (the second pair differs by 2), and the plain lexicographic
  comparison puts the first point before the second (0 < 1/2); the code passes over
  the first pair, which is within tolerance 1, and decides on the second: the first
  point is not less than the second, and the second is less than the first. Every
  difference of the example is computed without rounding.\<close>

theorem CPointCompare_less_not_lexicographic:
  "nDim \<lparr>nDim = 3, nodeID = 0, tolForMatching = 1, CPointCompare.coor = [0, 5, 0]\<rparr>
     = nDim \<lparr>nDim = 3, nodeID = 1, tolForMatching = 1, CPointCompare.coor = [1 / 2, 3, 0]\<rparr>
   \<and> \<not> all_within_tol \<lparr>nDim = 3, nodeID = 0, tolForMatching = 1, CPointCompare.coor = [0, 5, 0]\<rparr>
        \<lparr>nDim = 3, nodeID = 1, tolForMatching = 1, CPointCompare.coor = [1 / 2, 3, 0]\<rparr>
   \<and> \<not> computed_within_tol \<lparr>nDim = 3, nodeID = 0, tolForMatching = 1, CPointCompare.coor = [0, 5, 0]\<rparr>
        \<lparr>nDim = 3, nodeID = 1, tolForMatching = 1, CPointCompare.coor = [1 / 2, 3, 0]\<rparr>
   \<and> spec_less \<lparr>nDim = 3, nodeID = 0, tolForMatching = 1, CPointCompare.coor = [0, 5, 0]\<rparr>
        \<lparr>nDim = 3, nodeID = 1, tolForMatching = 1, CPointCompare.coor = [1 / 2, 3, 0]\<rparr>
   \<and> \<not> CPointCompare_less \<lparr>nDim = 3, nodeID = 0, tolForMatching = 1, CPointCompare.coor = [0, 5, 0]\<rparr>
        \<lparr>nDim = 3, nodeID = 1, tolForMatching = 1, CPointCompare.coor = [1 / 2, 3, 0]\<rparr>
   \<and> CPointCompare_less \<lparr>nDim = 3, nodeID = 1, tolForMatching = 1, CPointCompare.coor = [1 / 2, 3, 0]\<rparr>
        \<lparr>nDim = 3, nodeID = 0, tolForMatching = 1, CPointCompare.coor = [0, 5, 0]\<rparr>"
  by (auto simp: CPointCompare_less_def CPointCompare_loop.simps spec_less_def
      all_within_tol_iff computed_within_tol_iff numeral_3_eq_3 less_Suc_eq
      su2double_sub_def su2double_round_small)

text \<open>
  Claim C8. \<^verbatim>\<open>CPointCompare::operator<\<close> is not a strict weak order: there are three
  well-formed points \<open>a\<close>, \<open>b\<close>, \<open>c\<close> of equal dimension with \<open>a\<close> and \<open>b\<close> mutually
  not less, \<open>b\<close> and \<open>c\<close> mutually not less, and yet \<open>a < c\<close>; being mutually not less
  is not transitive.
\<close>

theorem CPointCompare_less_not_strict_weak_order:
  "\<exists>a b c. nDim a = nDim b \<and> nDim b = nDim c
      \<and> CPointCompare_wf a \<and> CPointCompare_wf b \<and> CPointCompare_wf c
      \<and> \<not> CPointCompare_less a b \<and> \<not> CPointCompare_less b a
      \<and> \<not> CPointCompare_less b c \<and> \<not> CPointCompare_less c b
      \<and> CPointCompare_less a c"
proof (intro exI conjI)
  let ?a = "\<lparr>nDim = 3, nodeID = 0, tolForMatching = 1, CPointCompare.coor = [0, 0, 0]\<rparr>"
  let ?b = "\<lparr>nDim = 3, nodeID = 1, tolForMatching = 1, CPointCompare.coor = [1, 0, 0]\<rparr>"
  let ?c = "\<lparr>nDim = 3, nodeID = 2, tolForMatching = 1, CPointCompare.coor = [2, 0, 0]\<rparr>"
  show "nDim ?a = nDim ?b" by simp
  show "nDim ?b = nDim ?c" by simp
  show "CPointCompare_wf ?a" by (simp add: CPointCompare_wf_def)
  show "CPointCompare_wf ?b" by (simp add: CPointCompare_wf_def)
  show "CPointCompare_wf ?c" by (simp add: CPointCompare_wf_def)
  show "\<not> CPointCompare_less ?a ?b"
    by (simp add: CPointCompare_less_def CPointCompare_loop.simps numeral_3_eq_3
        su2double_sub_def su2double_round_small)
  show "\<not> CPointCompare_less ?b ?a"
    by (simp add: CPointCompare_less_def CPointCompare_loop.simps numeral_3_eq_3
        su2double_sub_def su2double_round_small)
  show "\<not> CPointCompare_less ?b ?c"
    by (simp add: CPointCompare_less_def CPointCompare_loop.simps numeral_3_eq_3
        su2double_sub_def su2double_round_small)
  show "\<not> CPointCompare_less ?c ?b"
    by (simp add: CPointCompare_less_def CPointCompare_loop.simps numeral_3_eq_3
        su2double_sub_def su2double_round_small)
  show "CPointCompare_less ?a ?c"
    by (simp add: CPointCompare_less_def CPointCompare_loop.simps numeral_3_eq_3
        su2double_sub_def su2double_round_small)
qed

subsection \<open>Removing the double entities\<close>

lemma sint_short_eq_iff: "sint (a :: short) = sint b \<longleftrightarrow> a = b"
  by (auto intro: signed_word_eqI)

lemma CPointFEM_less_key: "CPointFEM_less a b = (CPointFEM_key a < CPointFEM_key b)"
  by (auto simp: CPointFEM_less_def CPointFEM_key_def sint_short_eq_iff less_le)

lemma CPointFEM_eq_key: "CPointFEM_eq a b = (CPointFEM_key a = CPointFEM_key b)"
  by (auto simp: CPointFEM_eq_def CPointFEM_key_def sint_short_eq_iff)

lemma unsignedLong2T_less_key:
  "unsignedLong2T_less a b = (unsignedLong2T_key a < unsignedLong2T_key b)"
  by (auto simp: unsignedLong2T_less_def unsignedLong2T_key_def)

lemma unsignedLong2T_eq_key:
  "unsignedLong2T_eq a b = (unsignedLong2T_key a = unsignedLong2T_key b)"
  by (auto simp: unsignedLong2T_eq_def unsignedLong2T_key_def)

lemma unsignedLong2T_eq_iff: "unsignedLong2T_eq a b = (a = b)"
  by (cases a, cases b) (auto simp: unsignedLong2T_eq_def)

lemma sorted_wrt_CPointFEM_less:
  "sorted_wrt CPointFEM_less ps = sorted_wrt (\<lambda>a b. CPointFEM_key a < CPointFEM_key b) ps"
  by (simp add: CPointFEM_less_key [abs_def])

lemma sorted_wrt_unsignedLong2T_less:
  "sorted_wrt unsignedLong2T_less hs
     = sorted_wrt (\<lambda>a b. unsignedLong2T_key a < unsignedLong2T_key b) hs"
  by (simp add: unsignedLong2T_less_key [abs_def])

lemma dedupPoints_strict: "sorted_wrt CPointFEM_less (dedupPoints ps)"
  unfolding sorted_wrt_CPointFEM_less dedupPoints_def
  by (rule std_unique_strict [OF CPointFEM_eq_key])
     (simp add: std_sort_key [of CPointFEM_less CPointFEM_key, OF CPointFEM_less_key])

lemma dedupHaloElements_strict: "sorted_wrt unsignedLong2T_less (dedupHaloElements hs)"
  unfolding sorted_wrt_unsignedLong2T_less dedupHaloElements_def
  by (rule std_unique_strict [OF unsignedLong2T_eq_key])
     (simp add: std_sort_key [of unsignedLong2T_less unsignedLong2T_key, OF unsignedLong2T_less_key])

lemma dedupPoints_id: "sorted_wrt CPointFEM_less ps \<Longrightarrow> dedupPoints ps = ps"
  unfolding sorted_wrt_CPointFEM_less dedupPoints_def
  by (simp add: std_sort_id [of CPointFEM_less CPointFEM_key, OF CPointFEM_less_key]
      std_unique_id [of CPointFEM_eq CPointFEM_key, OF CPointFEM_eq_key])

lemma dedupHaloElements_id:
  "sorted_wrt unsignedLong2T_less hs \<Longrightarrow> dedupHaloElements hs = hs"
  unfolding sorted_wrt_unsignedLong2T_less dedupHaloElements_def
  by (simp add: std_sort_id [of unsignedLong2T_less unsignedLong2T_key, OF unsignedLong2T_less_key]
      std_unique_id [of unsignedLong2T_eq unsignedLong2T_key, OF unsignedLong2T_eq_key])

text \<open>
  Claim C9. A vector of points, or of halo descriptors, that is already sorted and free
  of duplicates (it increases strictly under the class's \<^verbatim>\<open>operator<\<close>) is left as it
  is by another sort, unique and erase: neither its size nor its content changes. In
  particular removing the double entities twice gives what removing them once gives.
\<close>

theorem dedup_idempotent:
  "(sorted_wrt CPointFEM_less ps \<longrightarrow>
      dedupPoints ps = ps \<and> length (dedupPoints ps) = length ps)
   \<and> (sorted_wrt unsignedLong2T_less hs \<longrightarrow>
      dedupHaloElements hs = hs \<and> length (dedupHaloElements hs) = length hs)
   \<and> dedupPoints (dedupPoints qs) = dedupPoints qs
   \<and> dedupHaloElements (dedupHaloElements gs) = dedupHaloElements gs"
  by (simp add: dedupPoints_id dedupHaloElements_id dedupPoints_strict dedupHaloElements_strict)

text \<open>Witness for C9: three points and three halo descriptors in increasing order.\<close>

theorem dedup_idempotent_witness:
  "sorted_wrt CPointFEM_less
     [\<lparr>globalID = 4, CPointFEM.periodIndexToDonor = - 1, CPointFEM.coor = [0, 0, 0]\<rparr>,
      \<lparr>globalID = 9, CPointFEM.periodIndexToDonor = - 1, CPointFEM.coor = [1, 0, 0]\<rparr>,
      \<lparr>globalID = 4, CPointFEM.periodIndexToDonor = 2, CPointFEM.coor = [0, 1, 0]\<rparr>]
   \<and> dedupPoints
     [\<lparr>globalID = 4, CPointFEM.periodIndexToDonor = - 1, CPointFEM.coor = [0, 0, 0]\<rparr>,
      \<lparr>globalID = 9, CPointFEM.periodIndexToDonor = - 1, CPointFEM.coor = [1, 0, 0]\<rparr>,
      \<lparr>globalID = 4, CPointFEM.periodIndexToDonor = 2, CPointFEM.coor = [0, 1, 0]\<rparr>]
     = [\<lparr>globalID = 4, CPointFEM.periodIndexToDonor = - 1, CPointFEM.coor = [0, 0, 0]\<rparr>,
      \<lparr>globalID = 9, CPointFEM.periodIndexToDonor = - 1, CPointFEM.coor = [1, 0, 0]\<rparr>,
      \<lparr>globalID = 4, CPointFEM.periodIndexToDonor = 2, CPointFEM.coor = [0, 1, 0]\<rparr>]
   \<and> sorted_wrt unsignedLong2T_less
     [\<lparr>long0 = 3, long1 = 0\<rparr>, \<lparr>long0 = 3, long1 = 2\<rparr>, \<lparr>long0 = 8, long1 = 1\<rparr>]
   \<and> dedupHaloElements
     [\<lparr>long0 = 3, long1 = 0\<rparr>, \<lparr>long0 = 3, long1 = 2\<rparr>, \<lparr>long0 = 8, long1 = 1\<rparr>]
     = [\<lparr>long0 = 3, long1 = 0\<rparr>, \<lparr>long0 = 3, long1 = 2\<rparr>, \<lparr>long0 = 8, long1 = 1\<rparr>]"
proof -
  let ?ps = "[\<lparr>globalID = 4, CPointFEM.periodIndexToDonor = - 1, CPointFEM.coor = [0, 0, 0]\<rparr>,
      \<lparr>globalID = 9, CPointFEM.periodIndexToDonor = - 1, CPointFEM.coor = [1, 0, 0]\<rparr>,
      \<lparr>globalID = 4, CPointFEM.periodIndexToDonor = 2, CPointFEM.coor = [0, 1, 0]\<rparr>]"
  let ?hs = "[\<lparr>long0 = 3, long1 = 0\<rparr>, \<lparr>long0 = 3, long1 = 2\<rparr>, \<lparr>long0 = 8, long1 = 1\<rparr>]"
  have p: "sorted_wrt CPointFEM_less ?ps" by (simp add: CPointFEM_less_def)
  have h: "sorted_wrt unsignedLong2T_less ?hs" by (simp add: unsignedLong2T_less_def)
  from dedup_idempotent [of ?ps ?hs] p h show ?thesis by blast
qed

subsection \<open>The maps from global IDs to positions\<close>

lemma fold_index_map_notin:
  assumes "n \<le> length xs" and "y \<notin> set (take n xs)"
  shows "fold (\<lambda>i m. m(xs ! i \<mapsto> f i)) [0..<n] m0 y = m0 y"
  using assms
proof (induction n)
  case (Suc n)
  then have "y \<noteq> xs ! n" by (auto simp: take_Suc_conv_app_nth)
  moreover from Suc have "y \<notin> set (take n xs)" by (auto simp: take_Suc_conv_app_nth)
  ultimately show ?case using Suc by simp
qed simp

lemma fold_index_map_distinct:
  assumes "distinct xs" and "n \<le> length xs" and "i < n"
  shows "fold (\<lambda>i m. m(xs ! i \<mapsto> f i)) [0..<n] m0 (xs ! i) = Some (f i)"
  using assms(2,3)
proof (induction n)
  case (Suc n)
  show ?case
  proof (cases "i = n")
    case True
    then show ?thesis by simp
  next
    case False
    with Suc.prems have "i < n" by simp
    moreover from assms(1) Suc.prems False have "xs ! n \<noteq> xs ! i"
      by (simp add: nth_eq_iff_index_eq)
    ultimately show ?thesis using Suc by simp
  qed
qed simp

lemma fold_index_map_dom:
  assumes "n \<le> length xs"
  shows "dom (fold (\<lambda>i m. m(xs ! i \<mapsto> f i)) [0..<n] m0) = dom m0 \<union> set (take n xs)"
  using assms by (induction n) (auto simp: take_Suc_conv_app_nth)

lemma sorted_wrt_unsignedLong2T_less_distinct:
  assumes "sorted_wrt unsignedLong2T_less hs"
  shows "distinct hs"
proof -
  have "sorted_wrt (<) (map unsignedLong2T_key hs)"
    using assms by (simp add: sorted_wrt_unsignedLong2T_less sorted_wrt_map)
  then have "distinct (map unsignedLong2T_key hs)" by (simp add: strict_sorted_iff)
  then show ?thesis by (simp add: distinct_map)
qed

lemma distinct_dedupHaloElements: "distinct (dedupHaloElements hs)"
  by (rule sorted_wrt_unsignedLong2T_less_distinct [OF dedupHaloElements_strict])

text \<open>
  Claim C3. After the halo elements have been determined, \<^verbatim>\<open>volElem\<close> is resized to
  the number of owned elements plus the number of halo descriptors left after
  sort, unique and erase, and \<^verbatim>\<open>mapGlobalHaloElemToInd\<close> sends the \<open>i\<close>-th of these
  descriptors to the position \<open>nVolElemOwned + i\<close> and holds nothing else: the halo
  positions follow the owned ones, in the order of the list of descriptors.
\<close>

theorem halo_slots_follow_owned_slots:
  "nVolElemOwned (allocateVolumeElements dflt globalElemID (dedupHaloElements raw))
     = length globalElemID
   \<and> nVolElemTot (allocateVolumeElements dflt globalElemID (dedupHaloElements raw))
     = length globalElemID + length (dedupHaloElements raw)
   \<and> length (volElem (allocateVolumeElements dflt globalElemID (dedupHaloElements raw)))
     = length globalElemID + length (dedupHaloElements raw)
   \<and> dom (mapGlobalHaloElemToInd
        (allocateVolumeElements dflt globalElemID (dedupHaloElements raw)))
     = set (dedupHaloElements raw)
   \<and> (\<forall>i<length (dedupHaloElements raw).
        mapGlobalHaloElemToInd
          (allocateVolumeElements dflt globalElemID (dedupHaloElements raw))
          (dedupHaloElements raw ! i) = Some (length globalElemID + i))"
  using fold_index_map_distinct [OF distinct_dedupHaloElements [of raw] le_refl,
      of _ "\<lambda>i. length globalElemID + i" Map.empty]
  by (simp add: allocateVolumeElements_def Let_def fold_index_map_dom)

text \<open>Witness for C3: three owned elements and the descriptors \<open>(8, 1)\<close>, \<open>(3, 0)\<close>,
  \<open>(8, 1)\<close>; the second descriptor of the sorted list, \<open>(8, 1)\<close>, gets position 4.\<close>

theorem halo_slots_follow_owned_slots_witness:
  "dedupHaloElements [\<lparr>long0 = 8, long1 = 1\<rparr>, \<lparr>long0 = 3, long1 = 0\<rparr>, \<lparr>long0 = 8, long1 = 1\<rparr>]
     = [\<lparr>long0 = 3, long1 = 0\<rparr>, \<lparr>long0 = 8, long1 = 1\<rparr>]
   \<and> (1 :: nat) < length (dedupHaloElements
        [\<lparr>long0 = 8, long1 = 1\<rparr>, \<lparr>long0 = 3, long1 = 0\<rparr>, \<lparr>long0 = 8, long1 = 1\<rparr>])
   \<and> mapGlobalHaloElemToInd
        (allocateVolumeElements zeroVolumeElement [5, 6, 7]
          (dedupHaloElements
            [\<lparr>long0 = 8, long1 = 1\<rparr>, \<lparr>long0 = 3, long1 = 0\<rparr>, \<lparr>long0 = 8, long1 = 1\<rparr>]))
        \<lparr>long0 = 8, long1 = 1\<rparr> = Some 4"
proof -
  let ?raw = "[\<lparr>long0 = 8, long1 = 1\<rparr>, \<lparr>long0 = 3, long1 = 0\<rparr>, \<lparr>long0 = 8, long1 = 1\<rparr>]"
  have d: "dedupHaloElements ?raw = [\<lparr>long0 = 3, long1 = 0\<rparr>, \<lparr>long0 = 8, long1 = 1\<rparr>]"
    by (simp add: dedupHaloElements_def std_sort_def unsignedLong2T_less_def
        unsignedLong2T_eq_def)
  have l: "(1 :: nat) < length (dedupHaloElements ?raw)" by (simp add: d)
  from halo_slots_follow_owned_slots [of zeroVolumeElement "[5, 6, 7]" ?raw] l
  have "mapGlobalHaloElemToInd (allocateVolumeElements zeroVolumeElement [5, 6, 7] (dedupHaloElements ?raw))
          (dedupHaloElements ?raw ! 1) = Some (length [5, 6, 7 :: ulong] + 1)"
    by blast
  then have "mapGlobalHaloElemToInd
      (allocateVolumeElements zeroVolumeElement [5, 6, 7] (dedupHaloElements ?raw))
      \<lparr>long0 = 8, long1 = 1\<rparr> = Some 4"
    by (simp add: d)
  with d l show ?thesis by blast
qed

subsection \<open>Reading the buffers of the first exchange\<close>

text \<open>The cursors of the loops walk over the packed elements: when the buffers hold
  what the sending ranks packed, every read is inside the buffer and the loops return
  what the elements say.\<close>

lemma rd_mid:
  "i < length xs \<Longrightarrow> rd (pre @ xs @ post) (length pre + i) = Inr (xs ! i)"
  by (simp add: rd_def nth_append)

lemma rd_mid':
  "L = pre @ xs @ post \<Longrightarrow> n = length pre + i \<Longrightarrow> i < length xs \<Longrightarrow> rd L n = Inr (xs ! i)"
  by (simp add: rd_mid)

lemma length_packElementLong:
  "length (packElementLong e) = 2 + unat (GetNDOFsGrid e) + unat (GetnFaces e)"
  by (simp add: packElementLong_def)

lemma length_concat_pairs: "length (concat (map (\<lambda>j. [f j, g j]) xs)) = 2 * length xs"
  by (induction xs) auto

lemma length_packElementShort:
  "length (packElementShort e) = 7 + 2 * unat (GetnFaces e)"
  by (simp add: packElementShort_def length_concat_pairs)

lemma nth_concat_pairs:
  "k < n \<Longrightarrow> concat (map (\<lambda>j. [f j, g j]) [0..<n]) ! (2 * k) = f k"
proof (induction n)
  case (Suc n)
  show ?case
  proof (cases "k < n")
    case True
    then have "2 * k < length (concat (map (\<lambda>j. [f j, g j]) [0..<n]))"
      by (simp add: length_concat_pairs)
    with Suc True show ?thesis by (simp add: nth_append)
  next
    case False
    with Suc.prems have "k = n" by simp
    then show ?thesis by (simp add: nth_append length_concat_pairs)
  qed
qed simp

lemma packElementLong_nth:
  "packElementLong e ! 0 = GetGlobalElemID e"
  "packElementLong e ! 1 = GetGlobalOffsetDOFsSol e"
  "k < unat (GetNDOFsGrid e) \<Longrightarrow> packElementLong e ! (2 + k) = GetNode e k"
  "k < unat (GetnFaces e) \<Longrightarrow>
     packElementLong e ! (unat (GetNDOFsGrid e) + 2 + k) = GetNeighbor_Elements e k"
  by (simp_all add: packElementLong_def nth_append)

lemma packElementShort_nth:
  "packElementShort e ! 0 = GetVTK_Type e"
  "packElementShort e ! 1 = GetNPolyGrid e"
  "packElementShort e ! 2 = GetNPolySol e"
  "packElementShort e ! 3 = GetNDOFsGrid e"
  "packElementShort e ! 4 = GetNDOFsSol e"
  "packElementShort e ! 5 = GetnFaces e"
  "packElementShort e ! 6 = of_bool (GetJacobianConsideredConstant e)"
  "k < unat (GetnFaces e) \<Longrightarrow> packElementShort e ! (7 + 2 * k) = GetPeriodicIndex e k"
  by (simp_all add: packElementShort_def nth_concat_pairs)


lemma haloFaceLoop_reads:
  assumes "\<And>k. k < n \<Longrightarrow> rd L (indL + k) = Inr (nb (m + k))"
    and "\<And>k. k < n \<Longrightarrow> rd S (indS + 2 * k) = Inr (per (m + k))"
  shows "haloFaceLoop gids L S n indL indS halo =
           Inr (indL + n, indS + 2 * n,
                halo @ map (\<lambda>k. haloDescriptor (nb k) (per k))
                         (filter (\<lambda>k. face_is_halo gids (nb k) (per k)) [m..<m + n]))"
  using assms
proof (induction n arbitrary: indL indS halo m)
  case 0
  show ?case by simp
next
  case (Suc n)
  define ks where "ks = [Suc m..<Suc m + n]"
  have r0: "rd L indL = Inr (nb m)" using Suc.prems(1) [of 0] by simp
  have s0: "rd S indS = Inr (per m)" using Suc.prems(2) [of 0] by simp
  have IH: "haloFaceLoop gids L S n (indL + 1) (indS + 2) h =
           Inr (indL + 1 + n, indS + 2 + 2 * n,
                h @ map (\<lambda>k. haloDescriptor (nb k) (per k))
                         (filter (\<lambda>k. face_is_halo gids (nb k) (per k)) ks))"
    for h
    unfolding ks_def
  proof (rule Suc.IH)
    fix k assume "k < n"
    then show "rd L (indL + 1 + k) = Inr (nb (Suc m + k))"
      using Suc.prems(1) [of "Suc k"] by simp
  next
    fix k assume "k < n"
    then show "rd S (indS + 2 + 2 * k) = Inr (per (Suc m + k))"
      using Suc.prems(2) [of "Suc k"] by simp
  qed
  have upt: "[m..<m + Suc n] = m # ks"
    by (simp add: ks_def upt_rec [of m])
  show ?case
    unfolding upt
    using IH [of halo] IH [of "halo @ [\<lparr>long0 = nb m, long1 = scast (per m) + 1\<rparr>]"]
    by (cases "face_is_halo gids (nb m) (per m)")
       (auto simp: r0 s0 Let_def face_is_halo_def haloDescriptor_def)
qed

lemma halosOfElement_faces:
  "halosOfElement gids e =
     map (\<lambda>k. haloDescriptor (GetNeighbor_Elements e k) (GetPeriodicIndex e k))
       (filter (\<lambda>k. face_is_halo gids (GetNeighbor_Elements e k) (GetPeriodicIndex e k))
          [0..<0 + unat (GetnFaces e)])"
  by (simp add: halosOfElement_def)

lemma haloElemLoop_packed:
  assumes "L = preL @ concat (map packElementLong es) @ postL"
    and "S = preS @ concat (map packElementShort es) @ postS"
  shows "haloElemLoop gids L S (length es) (length preL) (length preS) halo =
           Inr (length preL + length (concat (map packElementLong es)),
                length preS + length (concat (map packElementShort es)),
                halo @ concat (map (halosOfElement gids) es))"
  using assms
proof (induction es arbitrary: preL preS halo)
  case Nil
  show ?case by simp
next
  case (Cons e es)
  have L: "L = preL @ packElementLong e @ (concat (map packElementLong es) @ postL)"
    using Cons.prems(1) by simp
  have S: "S = preS @ packElementShort e @ (concat (map packElementShort es) @ postS)"
    using Cons.prems(2) by simp
  have d: "rd S (length preS + 3) = Inr (GetNDOFsGrid e)"
    using rd_mid' [OF S refl, of 3] by (simp add: length_packElementShort packElementShort_nth)
  have f: "rd S (length preS + 5) = Inr (GetnFaces e)"
    using rd_mid' [OF S refl, of 5] by (simp add: length_packElementShort packElementShort_nth)
  have faces: "haloFaceLoop gids L S (unat (GetnFaces e))
      (length preL + (unat (GetNDOFsGrid e) + 2)) (length preS + 7) halo =
        Inr (length preL + (unat (GetNDOFsGrid e) + 2) + unat (GetnFaces e),
             length preS + 7 + 2 * unat (GetnFaces e),
             halo @ halosOfElement gids e)"
    unfolding halosOfElement_faces
  proof (rule haloFaceLoop_reads)
    fix k assume k: "k < unat (GetnFaces e)"
    show "rd L (length preL + (unat (GetNDOFsGrid e) + 2) + k)
        = Inr (GetNeighbor_Elements e (0 + k))"
    proof -
      have "rd L (length preL + (unat (GetNDOFsGrid e) + 2 + k))
          = Inr (packElementLong e ! (unat (GetNDOFsGrid e) + 2 + k))"
        by (rule rd_mid' [OF L refl]) (simp add: length_packElementLong k)
      with packElementLong_nth(4) [OF k] show ?thesis
        by (simp add: add.assoc)
    qed
  next
    fix k assume k: "k < unat (GetnFaces e)"
    show "rd S (length preS + 7 + 2 * k) = Inr (GetPeriodicIndex e (0 + k))"
    proof -
      have "rd S (length preS + (7 + 2 * k)) = Inr (packElementShort e ! (7 + 2 * k))"
        by (rule rd_mid' [OF S refl]) (simp add: length_packElementShort k)
      with packElementShort_nth(8) [OF k] show ?thesis
        by (simp add: add.assoc)
    qed
  qed
  have L': "L = (preL @ packElementLong e) @ concat (map packElementLong es) @ postL"
    using Cons.prems(1) by simp
  have S': "S = (preS @ packElementShort e) @ concat (map packElementShort es) @ postS"
    using Cons.prems(2) by simp
  have lenL: "length preL + (unat (GetNDOFsGrid e) + 2) + unat (GetnFaces e)
      = length (preL @ packElementLong e)"
    by (simp add: length_packElementLong)
  have lenS: "length preS + 7 + 2 * unat (GetnFaces e)
      = length (preS @ packElementShort e)"
    by (simp add: length_packElementShort)
  have step: "haloElemLoop gids L S (Suc (length es)) (length preL) (length preS) halo
      = haloElemLoop gids L S (length es) (length (preL @ packElementLong e))
          (length (preS @ packElementShort e)) (halo @ halosOfElement gids e)"
    by (simp only: haloElemLoop.simps d f faces sum.case prod.case lenL lenS)
  have "haloElemLoop gids L S (length (e # es)) (length preL) (length preS) halo
      = haloElemLoop gids L S (Suc (length es)) (length preL) (length preS) halo"
    by simp
  also note step
  also have "haloElemLoop gids L S (length es) (length (preL @ packElementLong e))
          (length (preS @ packElementShort e)) (halo @ halosOfElement gids e)
      = Inr (length (preL @ packElementLong e) + length (concat (map packElementLong es)),
             length (preS @ packElementShort e) + length (concat (map packElementShort es)),
             (halo @ halosOfElement gids e) @ concat (map (halosOfElement gids) es))"
    by (rule Cons.IH [OF L' S'])
  also have "\<dots> = Inr (length preL + length (concat (map packElementLong (e # es))),
                length preS + length (concat (map packElementShort (e # es))),
                halo @ concat (map (halosOfElement gids) (e # es)))"
    by simp
  finally show ?case .
qed


lemma unat_of_nat_long: "n < 2 ^ 64 \<Longrightarrow> unat (of_nat n :: long) = n"
  by (simp add: unat_of_nat)

lemma length_le_concat_packElementLong:
  "length es \<le> length (concat (map packElementLong es))"
  by (induction es) (simp_all add: length_packElementLong)

lemma advance_of_nat: "ind + k < 2 ^ 64 \<Longrightarrow> advance ind (of_nat k) = ind + k"
  using unat_of_nat_long [of "ind + k"] by (simp add: advance_def)

lemma scast_nonneg_short:
  assumes "0 \<le> sint (n :: short)"
  shows "(scast n :: long) = of_nat (unat n)"
proof -
  have "sint n < 2 ^ 16" using sint_lt [of n] by simp
  with assms have "take_bit 16 (sint n) = sint n" by (simp add: take_bit_int_eq_self)
  then have "uint n = sint n" using uint_sint [of n] by simp
  then have "(scast n :: long) = word_of_int (uint n)" by (simp only: scast_eq)
  then show ?thesis by simp
qed

lemma length_packBoundLong:
  "length (packBoundLong b) = 2 + unat (CPrimalGridBoundFEM.GetNDOFsGrid b)"
  by (simp add: packBoundLong_def)

lemma length_packBoundShort: "length (packBoundShort b) = 3"
  by (simp add: packBoundShort_def)

lemma boundCountLoop_packed:
  assumes "S = preS @ concat (map packBoundShort bs) @ postS"
    and "list_all (\<lambda>b. 0 \<le> sint (CPrimalGridBoundFEM.GetNDOFsGrid b)) bs"
    and "indL + length (concat (map packBoundLong bs)) < 2 ^ 64"
  shows "boundCountLoop S (length bs) indL (length preS)
     = Inr (indL + length (concat (map packBoundLong bs)),
            length preS + length (concat (map packBoundShort bs)))"
  using assms
proof (induction bs arbitrary: preS indL)
  case Nil
  show ?case by simp
next
  case (Cons b bs)
  let ?n = "CPrimalGridBoundFEM.GetNDOFsGrid b"
  have S: "S = preS @ packBoundShort b @ (concat (map packBoundShort bs) @ postS)"
    using Cons.prems(1) by simp
  have d: "rd S (length preS + 2) = Inr ?n"
    using rd_mid' [OF S refl, of 2] by (simp add: packBoundShort_def)
  from Cons.prems(2) have nn: "0 \<le> sint ?n"
    and rest: "list_all (\<lambda>b. 0 \<le> sint (CPrimalGridBoundFEM.GetNDOFsGrid b)) bs"
    by simp_all
  have "(scast ?n :: long) + 2 = of_nat (unat ?n + 2)"
    by (simp add: scast_nonneg_short [OF nn])
  moreover have "indL + (unat ?n + 2) < 2 ^ 64"
    using Cons.prems(3) by (simp add: length_packBoundLong)
  ultimately have a: "advance indL (scast ?n + 2) = indL + length (packBoundLong b)"
    by (simp only: advance_of_nat length_packBoundLong)
  have S': "S = (preS @ packBoundShort b) @ concat (map packBoundShort bs) @ postS"
    using Cons.prems(1) by simp
  have lenS: "length preS + 3 = length (preS @ packBoundShort b)"
    by (simp add: length_packBoundShort)
  have bound: "indL + length (packBoundLong b) + length (concat (map packBoundLong bs)) < 2 ^ 64"
    using Cons.prems(3) by simp
  have step: "boundCountLoop S (Suc (length bs)) indL (length preS)
      = boundCountLoop S (length bs) (indL + length (packBoundLong b))
          (length (preS @ packBoundShort b))"
    by (simp only: boundCountLoop.simps d sum.case a lenS)
  have "boundCountLoop S (length (b # bs)) indL (length preS)
      = boundCountLoop S (Suc (length bs)) indL (length preS)" by simp
  also note step
  also have "boundCountLoop S (length bs) (indL + length (packBoundLong b))
          (length (preS @ packBoundShort b))
      = Inr (indL + length (packBoundLong b) + length (concat (map packBoundLong bs)),
             length (preS @ packBoundShort b) + length (concat (map packBoundShort bs)))"
    by (rule Cons.IH [OF S' rest bound])
  also have "\<dots> = Inr (indL + length (concat (map packBoundLong (b # bs))),
            length preS + length (concat (map packBoundShort (b # bs))))"
    by simp
  finally show ?case .
qed


lemma length_packMarkersLong_Cons:
  "packMarkersLong (bs # bounds)
     = (of_nat (length bs) # concat (map packBoundLong bs)) @ packMarkersLong bounds"
  by (simp add: packMarkersLong_def)

lemma length_packMarkersShort_Cons:
  "packMarkersShort (bs # bounds) = concat (map packBoundShort bs) @ packMarkersShort bounds"
  by (simp add: packMarkersShort_def)

lemma length_le_concat_packBoundLong:
  "length bs \<le> length (concat (map packBoundLong bs))"
  by (induction bs) (simp_all add: length_packBoundLong)

lemma addBoundCounts_step:
  assumes "length nEB = k + Suc (length bounds)"
  shows "take (Suc k) (nEB[k := nEB ! k + of_nat (length bs)])
           @ addBoundCounts (drop (Suc k) (nEB[k := nEB ! k + of_nat (length bs)])) bounds
       = take k nEB @ addBoundCounts (drop k nEB) (bs # bounds)"
proof -
  from assms have k: "k < length nEB" by simp
  have "take (Suc k) (nEB[k := nEB ! k + of_nat (length bs)])
      = take k nEB @ [nEB ! k + of_nat (length bs)]"
    using k by (simp add: take_Suc_conv_app_nth)
  moreover have "drop (Suc k) (nEB[k := nEB ! k + of_nat (length bs)]) = drop (Suc k) nEB"
    by simp
  moreover have "drop k nEB = nEB ! k # drop (Suc k) nEB"
    using k by (simp add: Cons_nth_drop_Suc)
  ultimately show ?thesis by (simp add: addBoundCounts_def)
qed

lemma markerCountLoop_packed:
  assumes "L = preL @ packMarkersLong bounds @ postL"
    and "S = preS @ packMarkersShort bounds @ postS"
    and "list_all (list_all (\<lambda>b. 0 \<le> sint (CPrimalGridBoundFEM.GetNDOFsGrid b))) bounds"
    and "length L < 2 ^ 63"
    and "length nEB = k + length bounds"
  shows "markerCountLoop L S [k..<k + length bounds] (length preL) (length preS) nEB
     = Inr (length preL + length (packMarkersLong bounds),
            length preS + length (packMarkersShort bounds),
            take k nEB @ addBoundCounts (drop k nEB) bounds)"
  using assms
proof (induction bounds arbitrary: preL preS k nEB)
  case Nil
  show ?case using Nil.prems(5)
    by (simp add: packMarkersLong_def packMarkersShort_def addBoundCounts_def)
next
  case (Cons bs bounds)
  let ?hd = "of_nat (length bs) # concat (map packBoundLong bs) :: long list"
  have L: "L = preL @ ?hd @ (packMarkersLong bounds @ postL)"
    using Cons.prems(1) by (simp add: length_packMarkersLong_Cons)
  have S: "S = preS @ concat (map packBoundShort bs) @ (packMarkersShort bounds @ postS)"
    using Cons.prems(2) by (simp add: length_packMarkersShort_Cons)
  have lenL: "length preL + 1 + length (concat (map packBoundLong bs)) \<le> length L"
    by (subst L) simp
  have n: "rd L (length preL) = Inr (of_nat (length bs))"
    using rd_mid' [OF L, of "length preL" 0] by simp
  have "length bs \<le> length (concat (map packBoundLong bs))"
    by (rule length_le_concat_packBoundLong)
  with lenL Cons.prems(4) have "length bs < 2 ^ 63" by simp
  then have cnt: "nat (sint (of_nat (length bs) :: long)) = length bs"
    by (simp add: sint_of_nat_long)
  from Cons.prems(3) have nn: "list_all (\<lambda>b. 0 \<le> sint (CPrimalGridBoundFEM.GetNDOFsGrid b)) bs"
    and rest: "list_all (list_all (\<lambda>b. 0 \<le> sint (CPrimalGridBoundFEM.GetNDOFsGrid b))) bounds"
    by simp_all
  have small: "length preL + 1 + length (concat (map packBoundLong bs)) < 2 ^ 64"
    using lenL Cons.prems(4) by simp
  have inner: "boundCountLoop S (length bs) (length preL + 1) (length preS)
      = Inr (length (preL @ ?hd), length (preS @ concat (map packBoundShort bs)))"
    using boundCountLoop_packed [OF S nn small] by simp
  have L': "L = (preL @ ?hd) @ packMarkersLong bounds @ postL" using L by simp
  have S': "S = (preS @ concat (map packBoundShort bs)) @ packMarkersShort bounds @ postS"
    using S by simp
  let ?nEB = "nEB[k := nEB ! k + of_nat (length bs)]"
  have k': "length ?nEB = Suc k + length bounds" using Cons.prems(5) by simp
  have upt: "[k..<k + length (bs # bounds)] = k # [Suc k..<Suc k + length bounds]"
  proof -
    have "[k..<Suc k + length bounds] = k # [Suc k..<Suc k + length bounds]"
      by (rule upt_conv_Cons) simp
    then show ?thesis by simp
  qed
  have step: "markerCountLoop L S (k # [Suc k..<Suc k + length bounds]) (length preL)
        (length preS) nEB
      = markerCountLoop L S [Suc k..<Suc k + length bounds] (length (preL @ ?hd))
          (length (preS @ concat (map packBoundShort bs))) ?nEB"
    by (simp only: markerCountLoop.simps n sum.case cnt inner prod.case)
  have "markerCountLoop L S [k..<k + length (bs # bounds)] (length preL) (length preS) nEB
      = markerCountLoop L S (k # [Suc k..<Suc k + length bounds]) (length preL)
          (length preS) nEB"
    by (simp only: upt)
  also note step
  also have "markerCountLoop L S [Suc k..<Suc k + length bounds] (length (preL @ ?hd))
          (length (preS @ concat (map packBoundShort bs))) ?nEB
      = Inr (length (preL @ ?hd) + length (packMarkersLong bounds),
             length (preS @ concat (map packBoundShort bs)) + length (packMarkersShort bounds),
             take (Suc k) ?nEB @ addBoundCounts (drop (Suc k) ?nEB) bounds)"
    by (rule Cons.IH [OF L' S' rest Cons.prems(4) k'])
  also have "\<dots> = Inr (length preL + length (packMarkersLong (bs # bounds)),
            length preS + length (packMarkersShort (bs # bounds)),
            take k nEB @ addBoundCounts (drop k nEB) (bs # bounds))"
    using addBoundCounts_step [of nEB k bounds bs] Cons.prems(5)
    by (simp add: length_packMarkersLong_Cons length_packMarkersShort_Cons)
  finally show ?case .
qed

lemma haloElemLoop_buffer:
  assumes "length es < 2 ^ 64"
  shows "(case rd (packElementsLong es @ restL) 0 of Inl f \<Rightarrow> Inl f
      | Inr n \<Rightarrow>
     (case haloElemLoop gids (packElementsLong es @ restL) (packElementsShort es @ restS)
             (unat n) 1 0 halo of Inl f \<Rightarrow> Inl f
      | Inr (indL, indS, halo') \<Rightarrow> haloElemRanks gids bufs halo'))
    = haloElemRanks gids bufs (halo @ concat (map (halosOfElement gids) es))"
proof -
  have r: "rd (packElementsLong es @ restL) 0 = Inr (of_nat (length es))"
    by (simp add: rd_def packElementsLong_def)
  have L: "packElementsLong es @ restL
      = [of_nat (length es)] @ concat (map packElementLong es) @ restL"
    by (simp add: packElementsLong_def)
  have S: "packElementsShort es @ restS = [] @ concat (map packElementShort es) @ restS"
    by (simp add: packElementsShort_def)
  have "haloElemLoop gids (packElementsLong es @ restL) (packElementsShort es @ restS)
      (length es) (length [of_nat (length es) :: long]) (length ([] :: short list)) halo
    = Inr (length [of_nat (length es) :: long] + length (concat (map packElementLong es)),
           length ([] :: short list) + length (concat (map packElementShort es)),
           halo @ concat (map (halosOfElement gids) es))"
    by (rule haloElemLoop_packed [OF L S])
  then have "haloElemLoop gids (packElementsLong es @ restL) (packElementsShort es @ restS)
      (length es) 1 0 halo
    = Inr (1 + length (concat (map packElementLong es)),
           length (concat (map packElementShort es)),
           halo @ concat (map (halosOfElement gids) es))"
    by simp
  then show ?thesis
    by (simp add: r unat_of_nat_long [OF assms])
qed

lemma received_rank_wf_length:
  assumes "received_rank_wf nMarker meshDim (es, nodes, bounds)"
  shows "length es < 2 ^ 64"
proof -
  have "length es \<le> length (packElementsLong es @ packNodesLong nodes @ packMarkersLong bounds)"
    using length_le_concat_packElementLong [of es] by (simp add: packElementsLong_def)
  moreover from assms
  have "length (packElementsLong es @ packNodesLong nodes @ packMarkersLong bounds) < 2 ^ 63"
    by (simp add: received_rank_wf_def)
  ultimately show ?thesis by simp
qed

lemma haloElemRanks_received:
  assumes "received_wf nMarker meshDim received"
  shows "haloElemRanks gids (zip (receivedLong received) (receivedShort received)) halo
     = Inr (halo @ concat (map (halosOfElement gids) (receivedElements received)))"
  using assms
proof (induction received arbitrary: halo)
  case Nil
  show ?case by (simp add: receivedLong_def receivedShort_def receivedElements_def)
next
  case (Cons r received)
  obtain es nodes bounds where r: "r = (es, nodes, bounds)" by (cases r) auto
  from Cons.prems have rwf: "received_rank_wf nMarker meshDim (es, nodes, bounds)"
    and wf: "received_wf nMarker meshDim received"
    by (simp_all add: received_wf_def r)
  have len: "length es < 2 ^ 64" by (rule received_rank_wf_length [OF rwf])
  have "haloElemRanks gids
      (zip (receivedLong (r # received)) (receivedShort (r # received))) halo
    = haloElemRanks gids (zip (receivedLong received) (receivedShort received))
        (halo @ concat (map (halosOfElement gids) es))"
    by (simp add: receivedLong_def receivedShort_def r haloElemLoop_buffer [OF len])
  also have "\<dots> = Inr ((halo @ concat (map (halosOfElement gids) es))
      @ concat (map (halosOfElement gids) (receivedElements received)))"
    by (rule Cons.IH [OF wf])
  finally show ?case by (simp add: receivedElements_def r)
qed

lemma globalElemIDLoop_packed:
  assumes "L = preL @ concat (map packElementLong es) @ postL"
    and "S = preS @ concat (map packElementShort es) @ postS"
  shows "globalElemIDLoop L S (length es) (length preL) (length preS) ids =
           Inr (length preL + length (concat (map packElementLong es)),
                length preS + length (concat (map packElementShort es)),
                ids @ map GetGlobalElemID es)"
  using assms
proof (induction es arbitrary: preL preS ids)
  case Nil
  show ?case by simp
next
  case (Cons e es)
  have L: "L = preL @ packElementLong e @ (concat (map packElementLong es) @ postL)"
    using Cons.prems(1) by simp
  have S: "S = preS @ packElementShort e @ (concat (map packElementShort es) @ postS)"
    using Cons.prems(2) by simp
  have i: "rd L (length preL) = Inr (GetGlobalElemID e)"
    using rd_mid' [OF L, of "length preL" 0]
    by (simp add: length_packElementLong packElementLong_nth)
  have d: "rd S (length preS + 3) = Inr (GetNDOFsGrid e)"
    using rd_mid' [OF S refl, of 3] by (simp add: length_packElementShort packElementShort_nth)
  have f: "rd S (length preS + 5) = Inr (GetnFaces e)"
    using rd_mid' [OF S refl, of 5] by (simp add: length_packElementShort packElementShort_nth)
  have L': "L = (preL @ packElementLong e) @ concat (map packElementLong es) @ postL"
    using Cons.prems(1) by simp
  have S': "S = (preS @ packElementShort e) @ concat (map packElementShort es) @ postS"
    using Cons.prems(2) by simp
  have lenL: "length preL + (unat (GetNDOFsGrid e) + unat (GetnFaces e) + 2)
      = length (preL @ packElementLong e)"
    by (simp add: length_packElementLong)
  have lenS: "length preS + (2 * unat (GetnFaces e) + 7)
      = length (preS @ packElementShort e)"
    by (simp add: length_packElementShort)
  have step: "globalElemIDLoop L S (Suc (length es)) (length preL) (length preS) ids
      = globalElemIDLoop L S (length es) (length (preL @ packElementLong e))
          (length (preS @ packElementShort e)) (ids @ [GetGlobalElemID e])"
    by (simp only: globalElemIDLoop.simps i d f sum.case lenL lenS)
  have "globalElemIDLoop L S (length (e # es)) (length preL) (length preS) ids
      = globalElemIDLoop L S (Suc (length es)) (length preL) (length preS) ids"
    by simp
  also note step
  also have "globalElemIDLoop L S (length es) (length (preL @ packElementLong e))
          (length (preS @ packElementShort e)) (ids @ [GetGlobalElemID e])
      = Inr (length (preL @ packElementLong e) + length (concat (map packElementLong es)),
             length (preS @ packElementShort e) + length (concat (map packElementShort es)),
             (ids @ [GetGlobalElemID e]) @ map GetGlobalElemID es)"
    by (rule Cons.IH [OF L' S'])
  also have "\<dots> = Inr (length preL + length (concat (map packElementLong (e # es))),
                length preS + length (concat (map packElementShort (e # es))),
                ids @ map GetGlobalElemID (e # es))"
    by simp
  finally show ?case .
qed

lemma length_addBoundCounts:
  "length nEB = length bounds \<Longrightarrow> length (addBoundCounts nEB bounds) = length bounds"
  by (simp add: addBoundCounts_def)

lemma globalElemIDRanks_buffer:
  assumes wf: "received_rank_wf nMarker meshDim (es, nodes, bounds)"
    and nEB: "length nEB = nMarker"
  shows "globalElemIDRanks nMarker
      ((packElementsLong es @ packNodesLong nodes @ packMarkersLong bounds,
        packElementsShort es @ packMarkersShort bounds) # bufs) (ids, lnode, nEB)
    = globalElemIDRanks nMarker bufs
        (ids @ map GetGlobalElemID es, lnode + of_nat (length nodes), addBoundCounts nEB bounds)"
proof -
  let ?L = "packElementsLong es @ packNodesLong nodes @ packMarkersLong bounds"
  let ?S = "packElementsShort es @ packMarkersShort bounds"
  from wf have nb: "length bounds = nMarker" and small: "length ?L < 2 ^ 63"
    and nn: "list_all (list_all (\<lambda>b. 0 \<le> sint (CPrimalGridBoundFEM.GetNDOFsGrid b))) bounds"
    by (simp_all add: received_rank_wf_def)
  have len: "length es < 2 ^ 64" by (rule received_rank_wf_length [OF wf])
  have r: "rd ?L 0 = Inr (of_nat (length es))"
    by (simp add: rd_def packElementsLong_def)
  have L: "?L = [of_nat (length es)] @ concat (map packElementLong es)
      @ (packNodesLong nodes @ packMarkersLong bounds)"
    by (simp add: packElementsLong_def)
  have S: "?S = [] @ concat (map packElementShort es) @ packMarkersShort bounds"
    by (simp add: packElementsShort_def)
  have "globalElemIDLoop ?L ?S
      (length es) (length [of_nat (length es) :: long]) (length ([] :: short list)) ids
    = Inr (length [of_nat (length es) :: long] + length (concat (map packElementLong es)),
           length ([] :: short list) + length (concat (map packElementShort es)),
           ids @ map GetGlobalElemID es)"
    by (rule globalElemIDLoop_packed [OF L S])
  then have loop: "globalElemIDLoop ?L ?S (length es) 1 0 ids
    = Inr (length (packElementsLong es), length (packElementsShort es),
           ids @ map GetGlobalElemID es)"
    by (simp add: packElementsLong_def packElementsShort_def)
  have L2: "?L = packElementsLong es @ packNodesLong nodes @ (packMarkersLong bounds @ [])"
    by simp
  have nd: "rd ?L (length (packElementsLong es)) = Inr (of_nat (length nodes))"
    using rd_mid' [OF L2, of "length (packElementsLong es)" 0]
    by (simp add: packNodesLong_def)
  have "length (packElementsLong es) + (length nodes + 1) \<le> length ?L"
    by (simp add: packNodesLong_def)
  with small have "length (packElementsLong es) + (length nodes + 1) < 2 ^ 64" by simp
  then have "advance (length (packElementsLong es)) (of_nat (length nodes + 1))
      = length (packElementsLong es) + (length nodes + 1)"
    by (rule advance_of_nat)
  then have adv: "advance (length (packElementsLong es)) (of_nat (length nodes) + 1)
      = length (packElementsLong es @ packNodesLong nodes)"
    by (simp add: packNodesLong_def add.commute)
  have L3: "?L = (packElementsLong es @ packNodesLong nodes) @ packMarkersLong bounds @ []"
    by simp
  have S3: "?S = packElementsShort es @ packMarkersShort bounds @ []" by simp
  have k: "length nEB = 0 + length bounds" using nEB nb by simp
  have "markerCountLoop ?L ?S [0..<0 + length bounds]
      (length (packElementsLong es @ packNodesLong nodes)) (length (packElementsShort es)) nEB
    = Inr (length (packElementsLong es @ packNodesLong nodes) + length (packMarkersLong bounds),
           length (packElementsShort es) + length (packMarkersShort bounds),
           take 0 nEB @ addBoundCounts (drop 0 nEB) bounds)"
    by (rule markerCountLoop_packed [OF L3 S3 nn small k])
  then have markers: "markerCountLoop ?L ?S [0..<nMarker]
      (length (packElementsLong es @ packNodesLong nodes)) (length (packElementsShort es)) nEB
    = Inr (length (packElementsLong es @ packNodesLong nodes) + length (packMarkersLong bounds),
           length (packElementsShort es) + length (packMarkersShort bounds),
           addBoundCounts nEB bounds)"
    by (simp add: nb)
  show ?thesis
    by (simp only: globalElemIDRanks.simps r sum.case unat_of_nat_long [OF len] loop
        prod.case nd adv markers)
qed

lemma globalElemIDRanks_received:
  assumes "received_wf nMarker meshDim received" and "length nEB = nMarker"
  shows "globalElemIDRanks nMarker (zip (receivedLong received) (receivedShort received))
           (ids, lnode, nEB)
     = Inr (ids @ map GetGlobalElemID (receivedElements received),
            lnode + receivedLocalNode received,
            fold (\<lambda>(es, nodes, bounds) c. addBoundCounts c bounds) received nEB)"
  using assms
proof (induction received arbitrary: ids lnode nEB)
  case Nil
  show ?case
    by (simp add: receivedLong_def receivedShort_def receivedElements_def
        receivedLocalNode_def)
next
  case (Cons r received)
  obtain es nodes bounds where r: "r = (es, nodes, bounds)" by (cases r) auto
  from Cons.prems(1) have rwf: "received_rank_wf nMarker meshDim (es, nodes, bounds)"
    and wf: "received_wf nMarker meshDim received"
    by (simp_all add: received_wf_def r)
  from rwf have nb: "length bounds = nMarker" by (simp add: received_rank_wf_def)
  have l': "length (addBoundCounts nEB bounds) = nMarker"
    using length_addBoundCounts [of nEB bounds] Cons.prems(2) nb by simp
  have "globalElemIDRanks nMarker
      (zip (receivedLong (r # received)) (receivedShort (r # received))) (ids, lnode, nEB)
    = globalElemIDRanks nMarker (zip (receivedLong received) (receivedShort received))
        (ids @ map GetGlobalElemID es, lnode + of_nat (length nodes), addBoundCounts nEB bounds)"
    using globalElemIDRanks_buffer [OF rwf Cons.prems(2)]
    by (simp add: receivedLong_def receivedShort_def r)
  also have "\<dots> = Inr ((ids @ map GetGlobalElemID es)
        @ map GetGlobalElemID (receivedElements received),
      lnode + of_nat (length nodes) + receivedLocalNode received,
      fold (\<lambda>(es, nodes, bounds) c. addBoundCounts c bounds) received
        (addBoundCounts nEB bounds))"
    by (rule Cons.IH [OF wf l'])
  finally show ?case
    by (simp add: receivedElements_def receivedLocalNode_def r add.assoc)
qed

lemma localElemLoop_received:
  "localElemLoop (receivedLong received) n = Inr (n + receivedLocalElem received)"
proof (induction received arbitrary: n)
  case Nil
  show ?case by (simp add: receivedLong_def receivedLocalElem_def)
next
  case (Cons r received)
  obtain es nodes bounds where r: "r = (es, nodes, bounds)" by (cases r) auto
  have "rd (packElementsLong es @ packNodesLong nodes @ packMarkersLong bounds) 0
      = Inr (of_nat (length es))"
    by (simp add: rd_def packElementsLong_def)
  then have "localElemLoop (receivedLong (r # received)) n
      = localElemLoop (receivedLong received) (n + of_nat (length es))"
    by (simp add: receivedLong_def r)
  also have "\<dots> = Inr (n + of_nat (length es) + receivedLocalElem received)"
    by (rule Cons.IH)
  finally show ?case by (simp add: receivedLocalElem_def r add.assoc)
qed

lemma determineGlobalElemID_received:
  assumes "received_wf nMarker meshDim received"
  shows "determineGlobalElemID nMarker (receivedLong received) (receivedShort received)
     = Inr (std_sort (<) (map GetGlobalElemID (receivedElements received)),
            receivedLocalElem received, receivedLocalNode received,
            receivedElemBound nMarker received)"
  using globalElemIDRanks_received [OF assms, of "replicate nMarker 0" "[]" 0]
  by (simp add: determineGlobalElemID_def localElemLoop_received receivedElemBound_def)

lemma determineHaloElements_received:
  assumes "received_wf nMarker meshDim received"
  shows "determineHaloElements gids (receivedLong received) (receivedShort received)
     = Inr (dedupHaloElements
              (concat (map (halosOfElement gids) (receivedElements received))))"
  by (simp add: determineHaloElements_def haloElemRanks_received [OF assms])

lemma std_unique_set:
  assumes "\<And>a b. eq a b = (a = b)"
  shows "set (std_unique eq xs) = set xs"
  using assms by (induction eq xs rule: std_unique.induct) auto

lemma set_dedupHaloElements: "set (dedupHaloElements hs) = set hs"
  by (simp add: dedupHaloElements_def std_unique_set [OF unsignedLong2T_eq_iff]
      std_sort_key [of unsignedLong2T_less unsignedLong2T_key, OF unsignedLong2T_less_key])

lemma scast_short_long_inj: "(scast (a :: short) :: long) = scast b \<longleftrightarrow> a = b"
proof
  assume eq: "(scast a :: long) = scast b"
  show "a = b"
  proof (rule bit_word_eqI)
    fix n assume n: "n < LENGTH(16)"
    from eq have "bit (scast a :: long) n = bit (scast b :: long) n" by simp
    with n show "bit a n = bit b n"
      by (cases "n = 15") (auto simp: bit_signed_iff min_def split: if_splits)
  qed
qed simp

lemma haloDescriptor_inj:
  "haloDescriptor nb p = haloDescriptor nb' p' \<longleftrightarrow> nb = nb' \<and> p = p'"
  by (auto simp: haloDescriptor_def scast_short_long_inj)

lemma set_halosOfElement:
  "set (halosOfElement gids e) =
     {haloDescriptor (GetNeighbor_Elements e k) (GetPeriodicIndex e k) | k.
        k < unat (GetnFaces e)
        \<and> face_is_halo gids (GetNeighbor_Elements e k) (GetPeriodicIndex e k)}"
  by (auto simp: halosOfElement_def)

lemma std_binary_search_example:
  "\<not> std_binary_search (<) [10, 11 :: ulong] (- 1)"
  "std_binary_search (<) [10, 11 :: ulong] 10"
  "std_binary_search (<) [10, 11 :: ulong] 11"
  by (simp_all add: std_binary_search_def std_lower_bound.simps Let_def)

lemma std_binary_search_owned:
  "std_binary_search (<) (std_sort (<) ids) (v :: ulong) \<longleftrightarrow> v \<in> set ids"
proof -
  have k: "std_sort (<) ids = sort_key (\<lambda>x. x) ids"
    by (rule std_sort_key) simp
  have "std_binary_search (<) (sort_key (\<lambda>x. x) ids) v
      \<longleftrightarrow> (\<exists>x\<in>set (sort_key (\<lambda>x. x) ids). x = v)"
    by (rule std_binary_search_iff [of "(<)" "\<lambda>x. x"]) simp_all
  then show ?thesis by (auto simp: k)
qed

lemma std_binary_search_example11:
  "\<not> std_binary_search (<) [11 :: ulong] 10"
  by (simp add: std_binary_search_def std_lower_bound.simps Let_def)

text \<open>
  Claim C2. For the buffers that the ranks packed in the first exchange, the passage
  that determines \<^verbatim>\<open>globalElemID\<close> ends normally with the sorted list of the global IDs
  of the received elements, and the binary search in this list finds exactly the IDs
  of the received (owned) elements. The loops over the faces of the received elements
  end normally, and a descriptor, the pair of the neighbour's global element ID and
  the periodic index of the face plus one, is recorded for a face exactly when the
  neighbour ID is not \<open>-1\<close> and it is not the case that the periodic index is \<open>-1\<close> and
  the neighbour is an owned element. The recorded descriptors then go through sort,
  unique and erase: the result has the same members, each once. Two descriptors are
  equal only if both the neighbour and the periodic index are, so the same neighbour
  behind two periodic transformations gives two halo elements.
\<close>

theorem halo_elements_recorded:
  assumes "received_wf nMarker meshDim received"
    and "globalElemID = std_sort (<) (map GetGlobalElemID (receivedElements received))"
  shows "determineGlobalElemID nMarker (receivedLong received) (receivedShort received)
           = Inr (globalElemID, receivedLocalElem received, receivedLocalNode received,
                  receivedElemBound nMarker received)
       \<and> (\<forall>v. std_binary_search (<) globalElemID v
                \<longleftrightarrow> v \<in> GetGlobalElemID ` set (receivedElements received))
       \<and> determineHaloElements globalElemID (receivedLong received) (receivedShort received)
           = Inr (dedupHaloElements
                   (concat (map (halosOfElement globalElemID) (receivedElements received))))
       \<and> set (dedupHaloElements
                 (concat (map (halosOfElement globalElemID) (receivedElements received))))
           = {\<lparr>long0 = GetNeighbor_Elements e k, long1 = scast (GetPeriodicIndex e k) + 1\<rparr>
              | e k.
                e \<in> set (receivedElements received) \<and> k < unat (GetnFaces e)
                \<and> GetNeighbor_Elements e k \<noteq> - 1
                \<and> \<not> (GetPeriodicIndex e k = - 1
                      \<and> GetNeighbor_Elements e k
                           \<in> GetGlobalElemID ` set (receivedElements received))}
       \<and> distinct (dedupHaloElements
                 (concat (map (halosOfElement globalElemID) (receivedElements received))))
       \<and> (haloDescriptor neighbor perIndex = haloDescriptor neighbor' perIndex'
            \<longleftrightarrow> neighbor = neighbor' \<and> perIndex = perIndex')"
proof (intro conjI)
  have search: "std_binary_search (<) globalElemID v
      \<longleftrightarrow> v \<in> GetGlobalElemID ` set (receivedElements received)" for v
    unfolding assms(2) by (simp add: std_binary_search_owned)
  show "determineGlobalElemID nMarker (receivedLong received) (receivedShort received)
           = Inr (globalElemID, receivedLocalElem received, receivedLocalNode received,
                  receivedElemBound nMarker received)"
    unfolding assms(2) by (rule determineGlobalElemID_received [OF assms(1)])
  show "\<forall>v. std_binary_search (<) globalElemID v
                \<longleftrightarrow> v \<in> GetGlobalElemID ` set (receivedElements received)"
    using search by blast
  show "determineHaloElements globalElemID (receivedLong received) (receivedShort received)
           = Inr (dedupHaloElements
                   (concat (map (halosOfElement globalElemID) (receivedElements received))))"
    by (rule determineHaloElements_received [OF assms(1)])
  show "set (dedupHaloElements
                 (concat (map (halosOfElement globalElemID) (receivedElements received))))
           = {\<lparr>long0 = GetNeighbor_Elements e k, long1 = scast (GetPeriodicIndex e k) + 1\<rparr>
              | e k.
                e \<in> set (receivedElements received) \<and> k < unat (GetnFaces e)
                \<and> GetNeighbor_Elements e k \<noteq> - 1
                \<and> \<not> (GetPeriodicIndex e k = - 1
                      \<and> GetNeighbor_Elements e k
                           \<in> GetGlobalElemID ` set (receivedElements received))}"
    unfolding set_dedupHaloElements
    by (auto simp: set_halosOfElement face_is_halo_def search haloDescriptor_def)
  show "distinct (dedupHaloElements
                 (concat (map (halosOfElement globalElemID) (receivedElements received))))"
    by (rule distinct_dedupHaloElements)
  show "haloDescriptor neighbor perIndex = haloDescriptor neighbor' perIndex'
            \<longleftrightarrow> neighbor = neighbor' \<and> perIndex = perIndex'"
    by (rule haloDescriptor_inj)
qed


text \<open>Witness for C2, on the example grid. When the rank receives both elements,
  element 11 reaches element 10 through the periodic marker 0, which gives the one halo
  \<open>(10, 1)\<close>; the other neighbours are owned or absent. When it receives element 11
  only, element 10 is a halo twice: as the neighbour that is not owned, \<open>(10, 0)\<close>, and
  through the periodic marker, \<open>(10, 1)\<close>.\<close>

theorem halo_elements_recorded_witness:
  "received_wf 1 3 exampleReceived
   \<and> determineGlobalElemID 1 (receivedLong exampleReceived) (receivedShort exampleReceived)
      = Inr ([10, 11], 2, 3, [1])
   \<and> determineHaloElements [10, 11]
        (receivedLong exampleReceived) (receivedShort exampleReceived)
      = Inr [\<lparr>long0 = 10, long1 = 1\<rparr>]
   \<and> received_wf 1 3 exampleReceived11
   \<and> determineGlobalElemID 1 (receivedLong exampleReceived11) (receivedShort exampleReceived11)
      = Inr ([11], 1, 2, [0])
   \<and> determineHaloElements [11]
        (receivedLong exampleReceived11) (receivedShort exampleReceived11)
      = Inr [\<lparr>long0 = 10, long1 = 0\<rparr>, \<lparr>long0 = 10, long1 = 1\<rparr>]"
proof -
  have wf: "received_wf 1 3 exampleReceived"
    by (simp add: received_wf_def received_rank_wf_def exampleReceived_def
        packElementsLong_def packElementLong_def packNodesLong_def packMarkersLong_def
        packBoundLong_def exampleElem10_def exampleElem11_def exampleBound_def)
  have g: "[10, 11] = std_sort (<) (map GetGlobalElemID (receivedElements exampleReceived))"
    by (simp add: receivedElements_def exampleReceived_def std_sort_def
        exampleElem10_def exampleElem11_def)
  have h10: "halosOfElement [10, 11] exampleElem10 = []"
    by (simp add: halosOfElement_def exampleElem10_def upt_0_2 face_is_halo_def
        std_binary_search_example)
  have h11: "halosOfElement [10, 11] exampleElem11 = [\<lparr>long0 = 10, long1 = 1\<rparr>]"
    by (simp add: halosOfElement_def exampleElem11_def upt_0_2 face_is_halo_def
        std_binary_search_example haloDescriptor_def)
  note t = halo_elements_recorded [OF wf g]
  from t have "determineGlobalElemID 1 (receivedLong exampleReceived)
        (receivedShort exampleReceived)
      = Inr ([10, 11], receivedLocalElem exampleReceived, receivedLocalNode exampleReceived,
             receivedElemBound 1 exampleReceived)"
    by blast
  then have r1: "determineGlobalElemID 1 (receivedLong exampleReceived)
        (receivedShort exampleReceived) = Inr ([10, 11], 2, 3, [1])"
    by (simp add: receivedLocalElem_def receivedLocalNode_def receivedElemBound_def
        addBoundCounts_def exampleReceived_def)
  from t have "determineHaloElements [10, 11]
        (receivedLong exampleReceived) (receivedShort exampleReceived)
      = Inr (dedupHaloElements (concat (map (halosOfElement [10, 11])
               (receivedElements exampleReceived))))"
    by blast
  then have r2: "determineHaloElements [10, 11]
        (receivedLong exampleReceived) (receivedShort exampleReceived)
      = Inr [\<lparr>long0 = 10, long1 = 1\<rparr>]"
    by (simp add: receivedElements_def exampleReceived_def h10 h11 dedupHaloElements_def
        std_sort_def)
  have wf': "received_wf 1 3 exampleReceived11"
    by (simp add: received_wf_def received_rank_wf_def exampleReceived11_def
        packElementsLong_def packElementLong_def packNodesLong_def packMarkersLong_def
        exampleElem11_def)
  have g': "[11] = std_sort (<) (map GetGlobalElemID (receivedElements exampleReceived11))"
    by (simp add: receivedElements_def exampleReceived11_def std_sort_def exampleElem11_def)
  have h11': "halosOfElement [11] exampleElem11
      = [\<lparr>long0 = 10, long1 = 0\<rparr>, \<lparr>long0 = 10, long1 = 1\<rparr>]"
    by (simp add: halosOfElement_def exampleElem11_def upt_0_2 face_is_halo_def
        std_binary_search_example11 haloDescriptor_def)
  note t' = halo_elements_recorded [OF wf' g']
  from t' have "determineGlobalElemID 1 (receivedLong exampleReceived11)
        (receivedShort exampleReceived11)
      = Inr ([11], receivedLocalElem exampleReceived11, receivedLocalNode exampleReceived11,
             receivedElemBound 1 exampleReceived11)"
    by blast
  then have r3: "determineGlobalElemID 1 (receivedLong exampleReceived11)
        (receivedShort exampleReceived11) = Inr ([11], 1, 2, [0])"
    by (simp add: receivedLocalElem_def receivedLocalNode_def receivedElemBound_def
        addBoundCounts_def exampleReceived11_def)
  from t' have "determineHaloElements [11]
        (receivedLong exampleReceived11) (receivedShort exampleReceived11)
      = Inr (dedupHaloElements (concat (map (halosOfElement [11])
               (receivedElements exampleReceived11))))"
    by blast
  then have r4: "determineHaloElements [11]
        (receivedLong exampleReceived11) (receivedShort exampleReceived11)
      = Inr [\<lparr>long0 = 10, long1 = 0\<rparr>, \<lparr>long0 = 10, long1 = 1\<rparr>]"
    by (simp add: receivedElements_def exampleReceived11_def h11' dedupHaloElements_def
        std_sort_def unsignedLong2T_less_def unsignedLong2T_eq_def)
  from wf r1 r2 wf' r3 r4 show ?thesis by blast
qed

subsection \<open>Answering the requests for halo elements\<close>

lemma answerHaloElement_invalid:
  "locElemInd_invalid g (locElemInd_of g (L ! indL)) \<Longrightarrow>
     answerHaloElement g L indL b = Inl (Fatal invalidLocalElementID)"
  by (simp add: answerHaloElement_def)

lemma answerHaloElement_valid:
  assumes "\<not> locElemInd_invalid g (locElemInd_of g (L ! indL))"
    and "unat (npoint_procs_rank g) \<le> length (elem g)"
  shows "\<exists>b'. answerHaloElement g L indL b = Inr b'"
proof -
  from assms(1) have "locElemInd_of g (L ! indL) < npoint_procs_rank g"
    by (simp add: locElemInd_invalid_def not_le)
  then have "unat (locElemInd_of g (L ! indL)) < unat (npoint_procs_rank g)"
    by (simp add: word_less_nat_alt)
  with assms show ?thesis by (simp add: answerHaloElement_def Let_def)
qed

lemma answerHaloLoop_cases:
  assumes "unat (npoint_procs_rank g) \<le> length (elem g)"
  shows "(if \<exists>j<n. locElemInd_invalid g (locElemInd_of g (L ! (indL + 3 * j)))
          then answerHaloLoop g L n indL b = Inl (Fatal invalidLocalElementID)
          else \<exists>b'. answerHaloLoop g L n indL b = Inr b')"
proof (induction n arbitrary: indL b)
  case 0
  show ?case by simp
next
  case (Suc n)
  show ?case
  proof (cases "locElemInd_invalid g (locElemInd_of g (L ! indL))")
    case True
    then have "\<exists>j<Suc n. locElemInd_invalid g (locElemInd_of g (L ! (indL + 3 * j)))"
      by (intro exI [of _ 0]) simp
    with True show ?thesis by (simp add: answerHaloElement_invalid)
  next
    case False
    from answerHaloElement_valid [OF False assms] obtain b'
      where b': "answerHaloElement g L indL b = Inr b'" by blast
    have ex: "(\<exists>j<Suc n. locElemInd_invalid g (locElemInd_of g (L ! (indL + 3 * j))))
        \<longleftrightarrow> (\<exists>j<n. locElemInd_invalid g (locElemInd_of g (L ! (indL + 3 + 3 * j))))"
      (is "?A \<longleftrightarrow> ?B")
    proof
      assume ?A
      then obtain j where j: "j < Suc n"
        "locElemInd_invalid g (locElemInd_of g (L ! (indL + 3 * j)))" by blast
      with False have "j \<noteq> 0" by (cases j) auto
      then obtain j' where "j = Suc j'" by (cases j) auto
      with j show ?B by (intro exI [of _ j']) (simp add: add.assoc)
    next
      assume ?B
      then obtain j where j: "j < n"
        "locElemInd_invalid g (locElemInd_of g (L ! (indL + 3 + 3 * j)))" by blast
      then show ?A by (intro exI [of _ "Suc j"]) (simp add: add.assoc)
    qed
    from Suc [of "indL + 3" b'] show ?thesis
      unfolding ex by (simp add: b')
  qed
qed

lemma requestedRecords_Suc:
  "requestedRecords g L indL (Suc n) =
     (L ! indL, L ! (indL + 2), ucast (L ! (indL + 1)),
      elem g ! unat (locElemInd_of g (L ! indL)))
     # requestedRecords g L (indL + 3) n"
proof -
  have "[0..<Suc n] = 0 # map Suc [0..<n]"
    by (simp add: upt_conv_Cons map_Suc_upt del: upt_Suc)
  then show ?thesis
    by (simp add: requestedRecords_def o_def add.assoc del: upt_Suc)
qed

lemma answerHaloLoop_packed:
  "answerHaloLoop g L n indL b = Inr b' \<Longrightarrow>
     longSendBuf b' = longSendBuf b @ concat (map packHaloLong (requestedRecords g L indL n))
   \<and> shortSendBuf b' = shortSendBuf b @ concat (map packHaloShort (requestedRecords g L indL n))"
proof (induction n arbitrary: indL b)
  case 0
  then show ?case by (simp add: requestedRecords_def)
next
  case (Suc n)
  from Suc.prems obtain b1 where b1: "answerHaloElement g L indL b = Inr b1"
    and rest: "answerHaloLoop g L n (indL + 3) b1 = Inr b'"
    by (auto split: sum.splits)
  let ?r = "(L ! indL, L ! (indL + 2), ucast (L ! (indL + 1)) :: short,
      elem g ! unat (locElemInd_of g (L ! indL)))"
  from b1 have "longSendBuf b1 = longSendBuf b @ packHaloLong ?r
      \<and> shortSendBuf b1 = shortSendBuf b @ packHaloShort ?r"
    by (auto simp: answerHaloElement_def Let_def packHaloLong_def packHaloShort_def
        split: if_splits)
  with Suc.IH [OF rest] show ?case
    by (simp add: requestedRecords_Suc)
qed

lemma answerHaloLoop_nodeIDs:
  "answerHaloLoop g L n indL b = Inr b' \<Longrightarrow>
     nodeIDs b' = nodeIDs b @ concat (map haloNodeIDs (requestedRecords g L indL n))"
proof (induction n arbitrary: indL b)
  case 0
  then show ?case by (simp add: requestedRecords_def)
next
  case (Suc n)
  from Suc.prems obtain b1 where b1: "answerHaloElement g L indL b = Inr b1"
    and rest: "answerHaloLoop g L n (indL + 3) b1 = Inr b'"
    by (auto split: sum.splits)
  let ?r = "(L ! indL, L ! (indL + 2), ucast (L ! (indL + 1)) :: short,
      elem g ! unat (locElemInd_of g (L ! indL)))"
  from b1 have "nodeIDs b1 = nodeIDs b @ haloNodeIDs ?r"
    by (auto simp: answerHaloElement_def Let_def haloNodeIDs_def split: if_splits)
  with Suc.IH [OF rest] show ?case
    by (simp add: requestedRecords_Suc)
qed

lemma answerHaloRequests_valid:
  assumes "unat (npoint_procs_rank g) \<le> length (elem g)"
    and "\<not> (\<exists>j<length L div 3. locElemInd_invalid g (locElemInd_of g (L ! (3 * j))))"
  shows "answerHaloRequests g L =
     Inr \<lparr>shortSendBuf = concat (map packHaloShort (requestedRecords g L 0 (length L div 3))),
          longSendBuf = of_nat (length L div 3)
            # concat (map packHaloLong (requestedRecords g L 0 (length L div 3))),
          nodeIDs = concat (map haloNodeIDs (requestedRecords g L 0 (length L div 3)))\<rparr>"
proof -
  let ?b = "\<lparr>shortSendBuf = [], longSendBuf = [of_nat (length L div 3)], nodeIDs = []\<rparr>"
  from answerHaloLoop_cases [OF assms(1), of "length L div 3" L 0 ?b] assms(2)
  obtain b' where b': "answerHaloLoop g L (length L div 3) 0 ?b = Inr b'" by auto
  from answerHaloLoop_packed [OF b'] answerHaloLoop_nodeIDs [OF b']
  have "b' = \<lparr>shortSendBuf = concat (map packHaloShort (requestedRecords g L 0 (length L div 3))),
          longSendBuf = of_nat (length L div 3)
            # concat (map packHaloLong (requestedRecords g L 0 (length L div 3))),
          nodeIDs = concat (map haloNodeIDs (requestedRecords g L 0 (length L div 3)))\<rparr>"
    by (cases b') simp
  with b' show ?thesis by (simp add: answerHaloRequests_def Let_def)
qed

text \<open>
  Claim C6. When the global element ID of a request gives a local element index
  outside the valid range of the answering rank (negative, or not below
  \<^verbatim>\<open>npoint_procs[rank]\<close>, the number of elements of the rank), the rank prints the
  diagnostic and the run is aborted: the pass through the loop body ends in
  \<open>Fatal\<close>, and so does the whole loop over the requests of the buffer as soon as one
  of them is invalid. A request with a valid index is answered: the data of the
  element are appended to the send buffers. When every request of the buffer is valid
  the loop ends normally, and the send buffers it leaves hold the number of requests
  and then, request by request and in the order of the requests, the global element
  ID and the position that the request carried, the colour and the nodes of the
  requested element in the long buffer, the periodic index of the request and the six
  type and size entries of the element in the short buffer, and every node with the
  periodic index plus one in \<^verbatim>\<open>nodeIDs\<close>.
\<close>

theorem invalid_local_element_is_fatal:
  assumes "unat (npoint_procs_rank g) \<le> length (elem g)"
  shows "(locElemInd_invalid g (locElemInd_of g (L ! indL)) \<longrightarrow>
            answerHaloElement g L indL b = Inl (Fatal invalidLocalElementID))
       \<and> (\<not> locElemInd_invalid g (locElemInd_of g (L ! indL)) \<longrightarrow>
            answerHaloElement g L indL b =
              Inr \<lparr>shortSendBuf = shortSendBuf b @
                     [ucast (L ! (indL + 1)),
                      GetVTK_Type (elem g ! unat (locElemInd_of g (L ! indL))),
                      GetNPolyGrid (elem g ! unat (locElemInd_of g (L ! indL))),
                      GetNPolySol (elem g ! unat (locElemInd_of g (L ! indL))),
                      GetNDOFsGrid (elem g ! unat (locElemInd_of g (L ! indL))),
                      GetNDOFsSol (elem g ! unat (locElemInd_of g (L ! indL))),
                      GetnFaces (elem g ! unat (locElemInd_of g (L ! indL)))],
                   longSendBuf = longSendBuf b @
                     [L ! indL, L ! (indL + 2),
                      GetColor (elem g ! unat (locElemInd_of g (L ! indL)))] @
                     map (GetNode (elem g ! unat (locElemInd_of g (L ! indL))))
                       [0..<unat (GetNDOFsGrid (elem g ! unat (locElemInd_of g (L ! indL))))],
                   nodeIDs = nodeIDs b @
                     map (\<lambda>thisNodeID. \<lparr>long0 = thisNodeID,
                            long1 = scast (ucast (L ! (indL + 1)) :: short) + 1\<rparr>)
                       (map (GetNode (elem g ! unat (locElemInd_of g (L ! indL))))
                         [0..<unat (GetNDOFsGrid
                            (elem g ! unat (locElemInd_of g (L ! indL))))])\<rparr>)
       \<and> ((\<exists>j<length L div 3. locElemInd_invalid g (locElemInd_of g (L ! (3 * j)))) \<longrightarrow>
            answerHaloRequests g L = Inl (Fatal invalidLocalElementID))
       \<and> (\<not> (\<exists>j<length L div 3. locElemInd_invalid g (locElemInd_of g (L ! (3 * j)))) \<longrightarrow>
            answerHaloRequests g L =
              Inr \<lparr>shortSendBuf =
                     concat (map packHaloShort (requestedRecords g L 0 (length L div 3))),
                   longSendBuf = of_nat (length L div 3)
                     # concat (map packHaloLong (requestedRecords g L 0 (length L div 3))),
                   nodeIDs =
                     concat (map haloNodeIDs (requestedRecords g L 0 (length L div 3)))\<rparr>)"
proof (intro conjI impI)
  assume "locElemInd_invalid g (locElemInd_of g (L ! indL))"
  then show "answerHaloElement g L indL b = Inl (Fatal invalidLocalElementID)"
    by (rule answerHaloElement_invalid)
next
  assume valid: "\<not> locElemInd_invalid g (locElemInd_of g (L ! indL))"
  then have "locElemInd_of g (L ! indL) < npoint_procs_rank g"
    by (simp add: locElemInd_invalid_def not_le)
  then have "unat (locElemInd_of g (L ! indL)) < unat (npoint_procs_rank g)"
    by (simp add: word_less_nat_alt)
  with assms have "unat (locElemInd_of g (L ! indL)) < length (elem g)" by simp
  with valid show "answerHaloElement g L indL b =
      Inr \<lparr>shortSendBuf = shortSendBuf b @
             [ucast (L ! (indL + 1)),
              GetVTK_Type (elem g ! unat (locElemInd_of g (L ! indL))),
              GetNPolyGrid (elem g ! unat (locElemInd_of g (L ! indL))),
              GetNPolySol (elem g ! unat (locElemInd_of g (L ! indL))),
              GetNDOFsGrid (elem g ! unat (locElemInd_of g (L ! indL))),
              GetNDOFsSol (elem g ! unat (locElemInd_of g (L ! indL))),
              GetnFaces (elem g ! unat (locElemInd_of g (L ! indL)))],
           longSendBuf = longSendBuf b @
             [L ! indL, L ! (indL + 2),
              GetColor (elem g ! unat (locElemInd_of g (L ! indL)))] @
             map (GetNode (elem g ! unat (locElemInd_of g (L ! indL))))
               [0..<unat (GetNDOFsGrid (elem g ! unat (locElemInd_of g (L ! indL))))],
           nodeIDs = nodeIDs b @
             map (\<lambda>thisNodeID. \<lparr>long0 = thisNodeID,
                    long1 = scast (ucast (L ! (indL + 1)) :: short) + 1\<rparr>)
               (map (GetNode (elem g ! unat (locElemInd_of g (L ! indL))))
                 [0..<unat (GetNDOFsGrid
                    (elem g ! unat (locElemInd_of g (L ! indL))))])\<rparr>"
    by (simp add: answerHaloElement_def Let_def)
next
  assume "\<exists>j<length L div 3. locElemInd_invalid g (locElemInd_of g (L ! (3 * j)))"
  with answerHaloLoop_cases [OF assms, of "length L div 3" L 0]
  show "answerHaloRequests g L = Inl (Fatal invalidLocalElementID)"
    by (simp add: answerHaloRequests_def Let_def)
next
  assume "\<not> (\<exists>j<length L div 3. locElemInd_invalid g (locElemInd_of g (L ! (3 * j))))"
  with assms show "answerHaloRequests g L =
      Inr \<lparr>shortSendBuf =
             concat (map packHaloShort (requestedRecords g L 0 (length L div 3))),
           longSendBuf = of_nat (length L div 3)
             # concat (map packHaloLong (requestedRecords g L 0 (length L div 3))),
           nodeIDs =
             concat (map haloNodeIDs (requestedRecords g L 0 (length L div 3)))\<rparr>"
    by (rule answerHaloRequests_valid)
qed

text \<open>Witness for C6, on the example grid (elements 10 and 11): the request for
  element 12 is fatal; the requests for element 11 and, through the periodic marker 0,
  for element 10 are answered, in this order.\<close>

theorem invalid_local_element_is_fatal_witness:
  "unat (npoint_procs_rank exampleGeometry) \<le> length (elem exampleGeometry)
   \<and> locElemInd_invalid exampleGeometry (locElemInd_of exampleGeometry ([12, 0, 2] ! (3 * 0)))
   \<and> answerHaloRequests exampleGeometry [12, 0, 2] = Inl (Fatal invalidLocalElementID)
   \<and> \<not> locElemInd_invalid exampleGeometry (locElemInd_of exampleGeometry ([11, - 1, 2] ! 0))
   \<and> answerHaloElement exampleGeometry [11, - 1, 2] 0
        \<lparr>shortSendBuf = [], longSendBuf = [1], nodeIDs = []\<rparr>
      = Inr \<lparr>shortSendBuf = [- 1, 3, 1, 1, 2, 2, 2],
             longSendBuf = [1, 11, 2, 0, 21, 22],
             nodeIDs = [\<lparr>long0 = 21, long1 = 0\<rparr>, \<lparr>long0 = 22, long1 = 0\<rparr>]\<rparr>
   \<and> answerHaloRequests exampleGeometry [11, - 1, 2, 10, 0, 3]
      = Inr \<lparr>shortSendBuf = [- 1, 3, 1, 1, 2, 2, 2, 0, 3, 1, 1, 2, 2, 2],
             longSendBuf = [2, 11, 2, 0, 21, 22, 10, 3, 0, 20, 21],
             nodeIDs = [\<lparr>long0 = 21, long1 = 0\<rparr>, \<lparr>long0 = 22, long1 = 0\<rparr>,
                        \<lparr>long0 = 20, long1 = 1\<rparr>, \<lparr>long0 = 21, long1 = 1\<rparr>]\<rparr>"
proof -
  have h: "unat (npoint_procs_rank exampleGeometry) \<le> length (elem exampleGeometry)"
    by (simp add: exampleGeometry_def)
  have bad: "locElemInd_invalid exampleGeometry
      (locElemInd_of exampleGeometry ([12, 0, 2] ! (3 * 0)))"
    by (simp add: locElemInd_invalid_def locElemInd_of_def exampleGeometry_def)
  have good: "\<not> locElemInd_invalid exampleGeometry
      (locElemInd_of exampleGeometry ([11, - 1, 2] ! 0))"
    by (simp add: locElemInd_invalid_def locElemInd_of_def exampleGeometry_def
        word_le_nat_alt)
  have ex: "\<exists>j<length [12, 0, 2 :: long] div 3.
      locElemInd_invalid exampleGeometry (locElemInd_of exampleGeometry ([12, 0, 2] ! (3 * j)))"
    using bad by (intro exI [of _ 0]) simp
  note t = invalid_local_element_is_fatal [OF h]
  from t [of "[12, 0, 2]" 0] ex
  have r1: "answerHaloRequests exampleGeometry [12, 0, 2] = Inl (Fatal invalidLocalElementID)"
    by blast
  from t [of "[11, - 1, 2]" 0 "\<lparr>shortSendBuf = [], longSendBuf = [1], nodeIDs = []\<rparr>"] good
  have r2: "answerHaloElement exampleGeometry [11, - 1, 2] 0
        \<lparr>shortSendBuf = [], longSendBuf = [1], nodeIDs = []\<rparr>
      = Inr \<lparr>shortSendBuf = [- 1, 3, 1, 1, 2, 2, 2],
             longSendBuf = [1, 11, 2, 0, 21, 22],
             nodeIDs = [\<lparr>long0 = 21, long1 = 0\<rparr>, \<lparr>long0 = 22, long1 = 0\<rparr>]\<rparr>"
    by (simp add: locElemInd_of_def exampleGeometry_def exampleElem11_def upt_0_2)
  have d: "length [11, - 1, 2, 10, 0, 3 :: long] div 3 = 2" by simp
  have g0: "\<not> locElemInd_invalid exampleGeometry
      (locElemInd_of exampleGeometry ([11, - 1, 2, 10, 0, 3] ! (3 * 0)))"
    by (simp add: locElemInd_invalid_def locElemInd_of_def exampleGeometry_def
        word_le_nat_alt)
  have g1: "\<not> locElemInd_invalid exampleGeometry
      (locElemInd_of exampleGeometry ([11, - 1, 2, 10, 0, 3] ! (3 * 1)))"
    by (simp add: locElemInd_invalid_def locElemInd_of_def exampleGeometry_def
        word_le_nat_alt)
  have allgood: "\<not> (\<exists>j<length [11, - 1, 2, 10, 0, 3 :: long] div 3.
      locElemInd_invalid exampleGeometry
        (locElemInd_of exampleGeometry ([11, - 1, 2, 10, 0, 3] ! (3 * j))))"
  proof
    assume "\<exists>j<length [11, - 1, 2, 10, 0, 3 :: long] div 3.
      locElemInd_invalid exampleGeometry
        (locElemInd_of exampleGeometry ([11, - 1, 2, 10, 0, 3] ! (3 * j)))"
    then obtain j where j: "j < 2" "locElemInd_invalid exampleGeometry
        (locElemInd_of exampleGeometry ([11, - 1, 2, 10, 0, 3] ! (3 * j)))"
      unfolding d by blast
    from j(1) have "j = 0 \<or> j = 1" by arith
    with j(2) g0 g1 show False by auto
  qed
  from t [of "[11, - 1, 2, 10, 0, 3]" 0] allgood
  have "answerHaloRequests exampleGeometry [11, - 1, 2, 10, 0, 3] =
      Inr \<lparr>shortSendBuf = concat (map packHaloShort
             (requestedRecords exampleGeometry [11, - 1, 2, 10, 0, 3] 0
               (length [11, - 1, 2, 10, 0, 3 :: long] div 3))),
           longSendBuf = of_nat (length [11, - 1, 2, 10, 0, 3 :: long] div 3)
             # concat (map packHaloLong
                 (requestedRecords exampleGeometry [11, - 1, 2, 10, 0, 3] 0
                   (length [11, - 1, 2, 10, 0, 3 :: long] div 3))),
           nodeIDs = concat (map haloNodeIDs
             (requestedRecords exampleGeometry [11, - 1, 2, 10, 0, 3] 0
               (length [11, - 1, 2, 10, 0, 3 :: long] div 3)))\<rparr>"
    by blast
  then have r3: "answerHaloRequests exampleGeometry [11, - 1, 2, 10, 0, 3]
      = Inr \<lparr>shortSendBuf = [- 1, 3, 1, 1, 2, 2, 2, 0, 3, 1, 1, 2, 2, 2],
             longSendBuf = [2, 11, 2, 0, 21, 22, 10, 3, 0, 20, 21],
             nodeIDs = [\<lparr>long0 = 21, long1 = 0\<rparr>, \<lparr>long0 = 22, long1 = 0\<rparr>,
                        \<lparr>long0 = 20, long1 = 1\<rparr>, \<lparr>long0 = 21, long1 = 1\<rparr>]\<rparr>"
    unfolding d
    by (simp add: requestedRecords_def upt_0_2 packHaloShort_def packHaloLong_def
        haloNodeIDs_def locElemInd_of_def exampleGeometry_def exampleElem11_def
        exampleElem10_def)
  from h bad r1 good r2 r3 show ?thesis by blast
qed
subsection \<open>The halo points without periodic index\<close>

lemma invalidateLoop_eq:
  "i \<le> length hp \<Longrightarrow>
   invalidateLoop mesh G hp i n =
     (take i hp
        @ map (\<lambda>p. if alreadyPresent mesh p then invalidated G p else p)
            (takeWhile nonPeriodic (drop i hp))
        @ dropWhile nonPeriodic (drop i hp),
      n - length (filter (alreadyPresent mesh) (takeWhile nonPeriodic (drop i hp))))"
proof (induction mesh G hp i n rule: invalidateLoop.induct)
  case (1 mesh G hp i n)
  show ?case
  proof (cases "i < length hp")
    case False
    with "1.prems" show ?thesis by (subst invalidateLoop.simps) simp
  next
    case True
    then have d: "drop i hp = hp ! i # drop (Suc i) hp" by (simp add: Cons_nth_drop_Suc)
    show ?thesis
    proof (cases "CPointFEM.periodIndexToDonor (hp ! i) \<noteq> - 1")
      case per: True
      then have "invalidateLoop mesh G hp i n = (hp, n)"
        using True by (subst invalidateLoop.simps) simp
      moreover have "\<not> nonPeriodic (hp ! i)" using per by (simp add: nonPeriodic_def)
      ultimately show ?thesis
        using d by (simp add: append_take_drop_id [of i hp, unfolded d])
    next
      case nper: False
      then have np: "nonPeriodic (hp ! i)" by (simp add: nonPeriodic_def)
      show ?thesis
      proof (cases "std_binary_search CPointFEM_less mesh (hp ! i)")
        case found: True
        define hp' where "hp' = hp[i := (hp ! i)
                   \<lparr>globalID := InvalidPointID G,
                    CPointFEM.periodIndexToDonor := InvalidPerInd\<rparr>]"
        have eq: "invalidateLoop mesh G hp i n = invalidateLoop mesh G hp' (i + 1) (n - 1)"
          using True nper found by (subst invalidateLoop.simps) (simp add: hp'_def)
        have len: "i + 1 \<le> length hp'" using True by (simp add: hp'_def)
        have dr: "drop (i + 1) hp' = drop (Suc i) hp" by (simp add: hp'_def)
        have tk: "take (i + 1) hp' = take i hp @ [invalidated G (hp ! i)]"
          using True by (simp add: hp'_def take_Suc_conv_app_nth invalidated_def)
        have IH: "invalidateLoop mesh G hp' (i + 1) (n - 1) =
          (take (i + 1) hp'
            @ map (\<lambda>p. if alreadyPresent mesh p then invalidated G p else p)
                (takeWhile nonPeriodic (drop (i + 1) hp'))
            @ dropWhile nonPeriodic (drop (i + 1) hp'),
           n - 1 - length (filter (alreadyPresent mesh)
                  (takeWhile nonPeriodic (drop (i + 1) hp'))))"
          using "1.IH"(1) [OF True nper found] len by (simp add: hp'_def)
        have found': "alreadyPresent mesh (hp ! i)"
          using found by (simp add: alreadyPresent_def)
        show ?thesis
          unfolding eq IH dr tk d using np found' by simp
      next
        case nfound: False
        have eq: "invalidateLoop mesh G hp i n = invalidateLoop mesh G hp (i + 1) n"
          using True nper nfound by (subst invalidateLoop.simps) simp
        have len: "i + 1 \<le> length hp" using True by simp
        have tk: "take (i + 1) hp = take i hp @ [hp ! i]"
          using True by (simp add: take_Suc_conv_app_nth)
        have IH: "invalidateLoop mesh G hp (i + 1) n =
          (take (i + 1) hp
            @ map (\<lambda>p. if alreadyPresent mesh p then invalidated G p else p)
                (takeWhile nonPeriodic (drop (i + 1) hp))
            @ dropWhile nonPeriodic (drop (i + 1) hp),
           n - length (filter (alreadyPresent mesh)
                  (takeWhile nonPeriodic (drop (i + 1) hp))))"
          using "1.IH"(2) [OF True nper nfound] len by simp
        have nfound': "\<not> alreadyPresent mesh (hp ! i)"
          using nfound by (simp add: alreadyPresent_def)
        show ?thesis
          unfolding eq IH tk d using np nfound' by simp
      qed
    qed
  qed
qed

lemma addNonPeriodicLoop_eq:
  "i \<le> length hp \<Longrightarrow>
   addNonPeriodicLoop hp mesh i = mesh @ takeWhile nonPeriodic (drop i hp)"
proof (induction hp mesh i rule: addNonPeriodicLoop.induct)
  case (1 hp mesh i)
  show ?case
  proof (cases "i < length hp")
    case False
    with "1.prems" show ?thesis by (subst addNonPeriodicLoop.simps) simp
  next
    case True
    then have d: "drop i hp = hp ! i # drop (Suc i) hp" by (simp add: Cons_nth_drop_Suc)
    show ?thesis
    proof (cases "CPointFEM.periodIndexToDonor (hp ! i) \<noteq> - 1")
      case per: True
      then show ?thesis
        using True d by (subst addNonPeriodicLoop.simps) (simp add: nonPeriodic_def)
    next
      case nper: False
      then have np: "nonPeriodic (hp ! i)" by (simp add: nonPeriodic_def)
      have "addNonPeriodicLoop hp mesh i = addNonPeriodicLoop hp (mesh @ [hp ! i]) (i + 1)"
        using True nper by (subst addNonPeriodicLoop.simps) simp
      also have "\<dots> = (mesh @ [hp ! i]) @ takeWhile nonPeriodic (drop (i + 1) hp)"
        using "1.IH" [OF True nper] True by simp
      finally show ?thesis using np d by simp
    qed
  qed
qed


lemma sort_key_partition:
  fixes k :: "'a \<Rightarrow> 'b::linorder"
  assumes "sorted (map k (filter (\<lambda>x. k x < c) xs))" and "\<forall>x\<in>set xs. k x \<le> c"
  shows "sort_key k xs = filter (\<lambda>x. k x < c) xs @ filter (\<lambda>x. \<not> k x < c) xs"
  using assms
proof (induction xs)
  case Nil
  show ?case by simp
next
  case (Cons x xs)
  have all: "\<forall>x\<in>set xs. k x \<le> c" using Cons.prems(2) by simp
  show ?case
  proof (cases "k x < c")
    case True
    with Cons.prems(1) have s: "sorted (map k (filter (\<lambda>x. k x < c) xs))"
      and le: "\<forall>y\<in>set (filter (\<lambda>x. k x < c) xs). k x \<le> k y" by auto
    have "\<forall>y\<in>set (filter (\<lambda>x. k x < c) xs @ filter (\<lambda>x. \<not> k x < c) xs). k x \<le> k y"
    proof
      fix y assume "y \<in> set (filter (\<lambda>x. k x < c) xs @ filter (\<lambda>x. \<not> k x < c) xs)"
      then show "k x \<le> k y" using le True by (cases "k y < c") auto
    qed
    then have "insort_key k x (filter (\<lambda>x. k x < c) xs @ filter (\<lambda>x. \<not> k x < c) xs)
        = x # (filter (\<lambda>x. k x < c) xs @ filter (\<lambda>x. \<not> k x < c) xs)"
      by (rule insort_is_Cons)
    with Cons.IH [OF s all] True show ?thesis by simp
  next
    case False
    with Cons.prems have s: "sorted (map k (filter (\<lambda>x. k x < c) xs))"
      and kx: "k x = c" by auto
    have ins: "insort_key k x (A @ B) = A @ x # B"
      if "\<forall>a\<in>set A. k a < k x" "\<forall>b\<in>set B. k x \<le> k b" for A B
      using that by (induction A) (auto simp: insort_is_Cons)
    have "insort_key k x (filter (\<lambda>x. k x < c) xs @ filter (\<lambda>x. \<not> k x < c) xs)
        = filter (\<lambda>x. k x < c) xs @ x # filter (\<lambda>x. \<not> k x < c) xs"
      by (rule ins) (use all kx in auto)
    with Cons.IH [OF s all] False show ?thesis by simp
  qed
qed

lemma sorted_nonPeriodic_first:
  assumes "sorted (map CPointFEM_key hp)" and "\<forall>p\<in>set hp. periodicIndex_wf p"
  shows "takeWhile nonPeriodic hp = filter nonPeriodic hp
       \<and> dropWhile nonPeriodic hp = filter (\<lambda>p. \<not> nonPeriodic p) hp"
  using assms
proof (induction hp)
  case Nil
  show ?case by simp
next
  case (Cons x xs)
  show ?case
  proof (cases "nonPeriodic x")
    case True
    with Cons show ?thesis by simp
  next
    case False
    have "\<not> nonPeriodic y" if "y \<in> set xs" for y
    proof
      assume "nonPeriodic y"
      then have py: "sint (CPointFEM.periodIndexToDonor y) = - 1"
        by (simp add: nonPeriodic_def)
      from that Cons.prems(1) have "CPointFEM_key x \<le> CPointFEM_key y" by simp
      then have "sint (CPointFEM.periodIndexToDonor x) \<le> - 1"
        using py by (auto simp: CPointFEM_key_def less_eq_prod_def)
      moreover from Cons.prems(2) have "- 1 \<le> sint (CPointFEM.periodIndexToDonor x)"
        by (simp add: periodicIndex_wf_def)
      ultimately have "sint (CPointFEM.periodIndexToDonor x) = sint (- 1 :: short)" by simp
      then have "CPointFEM.periodIndexToDonor x = - 1" by (simp only: sint_short_eq_iff)
      with False show False by (simp add: nonPeriodic_def)
    qed
    then have "filter nonPeriodic xs = []" "filter (\<lambda>p. \<not> nonPeriodic p) xs = xs"
      by (simp_all add: filter_empty_conv filter_id_conv)
    with False show ?thesis by simp
  qed
qed


lemma CPointFEM_key_invalidated:
  "CPointFEM_key (invalidated G p) = (32767, InvalidPointID G)"
  by (simp add: CPointFEM_key_def invalidated_def InvalidPerInd_def)

lemma CPointFEM_key_below_invalid:
  "periodicIndex_wf p \<Longrightarrow> CPointFEM_key p < (32767, InvalidPointID G)"
  by (simp add: CPointFEM_key_def periodicIndex_wf_def)

lemma sorted_key_dedupPoints: "sorted (map CPointFEM_key (dedupPoints ps))"
proof -
  have "sorted_wrt (<) (map CPointFEM_key (dedupPoints ps))"
    using dedupPoints_strict [of ps] by (simp add: sorted_wrt_CPointFEM_less sorted_wrt_map)
  then show ?thesis by (simp add: strict_sorted_iff)
qed

lemma set_dedupPoints_subset: "set (dedupPoints ps) \<subseteq> set ps"
  using std_unique_subset [of CPointFEM_eq "std_sort CPointFEM_less ps"]
  by (simp add: dedupPoints_def
      std_sort_key [of CPointFEM_less CPointFEM_key, OF CPointFEM_less_key])

lemma resolveNonPeriodicHalos_sorted:
  assumes srt: "sorted (map CPointFEM_key hp)" and wf: "\<forall>p\<in>set hp. periodicIndex_wf p"
  defines "A \<equiv> filter nonPeriodic hp" and "B \<equiv> filter (\<lambda>p. \<not> nonPeriodic p) hp"
  shows "(let (hp2, nHaloPoints) = invalidateLoop mesh G hp 0 (length hp);
              hp3 = take nHaloPoints (std_sort CPointFEM_less hp2)
          in (addNonPeriodicLoop hp3 mesh 0, hp3))
       = (mesh @ filter (\<lambda>p. \<not> alreadyPresent mesh p) A,
          filter (\<lambda>p. \<not> alreadyPresent mesh p) A @ B)"
proof -
  let ?c = "(32767, InvalidPointID G) :: int \<times> ulong"
  let ?f = "\<lambda>p. if alreadyPresent mesh p then invalidated G p else p"
  let ?keep = "filter (\<lambda>p. \<not> alreadyPresent mesh p) A"
  from sorted_nonPeriodic_first [OF srt wf]
  have tw: "takeWhile nonPeriodic hp = A" and dw: "dropWhile nonPeriodic hp = B"
    by (simp_all add: A_def B_def)
  have hp: "hp = A @ B" using takeWhile_dropWhile_id [of nonPeriodic hp] tw dw by simp
  have inv: "invalidateLoop mesh G hp 0 (length hp)
      = (map ?f A @ B, length hp - length (filter (alreadyPresent mesh) A))"
    using invalidateLoop_eq [of 0 hp mesh G "length hp"] tw dw by simp
  have below: "CPointFEM_key p < ?c" if "p \<in> set hp" for p
    using wf that by (simp add: CPointFEM_key_below_invalid)
  have belowA: "\<forall>p\<in>set A. CPointFEM_key p < ?c" using below by (simp add: A_def)
  have belowB: "\<forall>p\<in>set B. CPointFEM_key p < ?c" using below by (simp add: B_def)
  have fA: "filter (\<lambda>x. CPointFEM_key x < ?c) (map ?f A) = ?keep"
    using belowA by (induction A) (auto simp: CPointFEM_key_invalidated)
  have fA': "filter (\<lambda>x. \<not> CPointFEM_key x < ?c) (map ?f A)
      = map (invalidated G) (filter (alreadyPresent mesh) A)"
    using belowA by (induction A) (auto simp: CPointFEM_key_invalidated)
  have fB: "filter (\<lambda>x. CPointFEM_key x < ?c) B = B"
    using belowB by (simp add: filter_id_conv)
  have fB': "filter (\<lambda>x. \<not> CPointFEM_key x < ?c) B = []"
    using belowB by (simp add: filter_empty_conv)
  have sub: "?keep @ B = filter (\<lambda>p. \<not> (nonPeriodic p \<and> alreadyPresent mesh p)) hp"
  proof -
    have "filter (\<lambda>p. \<not> (nonPeriodic p \<and> alreadyPresent mesh p)) A = ?keep"
      unfolding A_def filter_filter by (rule filter_cong) auto
    moreover have "filter (\<lambda>p. \<not> (nonPeriodic p \<and> alreadyPresent mesh p)) B = B"
      unfolding B_def filter_filter by (rule filter_cong) auto
    ultimately show ?thesis by (subst hp) simp
  qed
  have s1: "sorted (map CPointFEM_key (filter (\<lambda>x. CPointFEM_key x < ?c) (map ?f A @ B)))"
    using sorted_filter [OF srt, of "\<lambda>p. \<not> (nonPeriodic p \<and> alreadyPresent mesh p)"]
    by (simp add: fA fB sub)
  have s2: "\<forall>x\<in>set (map ?f A @ B). CPointFEM_key x \<le> ?c"
    using belowA belowB by (auto simp: CPointFEM_key_invalidated less_imp_le)
  have srt2: "std_sort CPointFEM_less (map ?f A @ B)
      = (?keep @ B) @ map (invalidated G) (filter (alreadyPresent mesh) A)"
    unfolding std_sort_key [of CPointFEM_less CPointFEM_key, OF CPointFEM_less_key]
      sort_key_partition [OF s1 s2]
    by (simp add: fA fA' fB fB')
  have len: "length hp - length (filter (alreadyPresent mesh) A) = length (?keep @ B)"
    using sum_length_filter_compl [of "alreadyPresent mesh" A] by (subst hp) simp
  have hp3: "take (length hp - length (filter (alreadyPresent mesh) A))
      (std_sort CPointFEM_less (map ?f A @ B)) = ?keep @ B"
    unfolding srt2 len by simp
  have npA: "\<forall>p\<in>set ?keep. nonPeriodic p" by (simp add: A_def)
  have "takeWhile nonPeriodic B = []"
    by (cases B) (use B_def in \<open>auto simp: filter_eq_Cons_iff\<close>)
  with takeWhile_append2 [of ?keep nonPeriodic B] npA
  have tw3: "takeWhile nonPeriodic (?keep @ B) = ?keep" by simp
  show ?thesis
    by (simp add: inv hp3 addNonPeriodicLoop_eq tw3 Let_def)
qed

text \<open>
  Claim C4. After the duplicate halo points have been removed, every halo point
  without periodic index that the binary search finds in \<^verbatim>\<open>meshPoints\<close> is marked
  invalid and dropped, and every other halo point without periodic index is appended
  to \<^verbatim>\<open>meshPoints\<close>. The order of the points puts those without periodic index
  first, so the two loops, which leave at the first point with a periodic index, have
  then seen all of them, and the halo points that remain for the periodic treatment
  are the appended ones followed by the periodic ones. On a sorted \<^verbatim>\<open>meshPoints\<close>
  the binary search finds a point exactly when a point with the same global ID and
  periodic index is there. (The periodic index of a halo point is \<open>-1\<close> or a marker
  index below \<^verbatim>\<open>SHRT_MAX\<close>.)
\<close>

theorem nonperiodic_halo_points_resolved_first:
  assumes "\<forall>p\<in>set haloPoints. periodicIndex_wf p"
  shows "resolveNonPeriodicHalos Global_nPoint meshPoints haloPoints
           = (meshPoints
                @ filter (\<lambda>p. nonPeriodic p \<and> \<not> alreadyPresent meshPoints p)
                    (dedupPoints haloPoints),
              filter (\<lambda>p. nonPeriodic p \<and> \<not> alreadyPresent meshPoints p)
                (dedupPoints haloPoints)
                @ filter (\<lambda>p. \<not> nonPeriodic p) (dedupPoints haloPoints))
       \<and> dedupPoints haloPoints
           = filter nonPeriodic (dedupPoints haloPoints)
               @ filter (\<lambda>p. \<not> nonPeriodic p) (dedupPoints haloPoints)
       \<and> (sorted_wrt CPointFEM_less meshPoints \<longrightarrow>
            (alreadyPresent meshPoints q \<longleftrightarrow> (\<exists>p\<in>set meshPoints. CPointFEM_eq p q)))"
proof (intro conjI impI)
  let ?hp = "dedupPoints haloPoints"
  have srt: "sorted (map CPointFEM_key ?hp)" by (rule sorted_key_dedupPoints)
  have wf: "\<forall>p\<in>set ?hp. periodicIndex_wf p"
    using assms set_dedupPoints_subset [of haloPoints] by blast
  have ff: "filter (\<lambda>p. \<not> alreadyPresent meshPoints p) (filter nonPeriodic ?hp)
      = filter (\<lambda>p. nonPeriodic p \<and> \<not> alreadyPresent meshPoints p) ?hp"
    unfolding filter_filter by (rule filter_cong) auto
  show "resolveNonPeriodicHalos Global_nPoint meshPoints haloPoints
           = (meshPoints
                @ filter (\<lambda>p. nonPeriodic p \<and> \<not> alreadyPresent meshPoints p) ?hp,
              filter (\<lambda>p. nonPeriodic p \<and> \<not> alreadyPresent meshPoints p) ?hp
                @ filter (\<lambda>p. \<not> nonPeriodic p) ?hp)"
    using resolveNonPeriodicHalos_sorted [OF srt wf, of meshPoints Global_nPoint]
    by (simp add: resolveNonPeriodicHalos_def Let_def ff)
  show "?hp = filter nonPeriodic ?hp @ filter (\<lambda>p. \<not> nonPeriodic p) ?hp"
    using sorted_nonPeriodic_first [OF srt wf] takeWhile_dropWhile_id [of nonPeriodic ?hp]
    by simp
next
  assume "sorted_wrt CPointFEM_less meshPoints"
  then have "sorted_wrt (<) (map CPointFEM_key meshPoints)"
    by (simp add: sorted_wrt_CPointFEM_less sorted_wrt_map)
  then have "sorted (map CPointFEM_key meshPoints)" by (simp add: strict_sorted_iff)
  from std_binary_search_iff [of CPointFEM_less CPointFEM_key, OF CPointFEM_less_key this]
  show "alreadyPresent meshPoints q \<longleftrightarrow> (\<exists>p\<in>set meshPoints. CPointFEM_eq p q)"
    by (simp add: alreadyPresent_def CPointFEM_eq_key)
qed

text \<open>Witness for C4: of the example halo points, node 21 is dropped, node 30 is
  appended once, and the periodic copy of node 20 stays for the periodic treatment.\<close>

theorem nonperiodic_halo_points_resolved_first_witness:
  "list_all periodicIndex_wf exampleHaloPoints
   \<and> resolveNonPeriodicHalos 100 exampleMeshPoints exampleHaloPoints
       = (exampleMeshPoints
            @ [\<lparr>globalID = 30, periodIndexToDonor = - 1, CPointFEM.coor = [5, 0, 0]\<rparr>],
          [\<lparr>globalID = 30, periodIndexToDonor = - 1, CPointFEM.coor = [5, 0, 0]\<rparr>,
           \<lparr>globalID = 20, periodIndexToDonor = 0, CPointFEM.coor = [0, 0, 0]\<rparr>])"
proof -
  have wf: "list_all periodicIndex_wf exampleHaloPoints"
    by (simp add: exampleHaloPoints_def periodicIndex_wf_def)
  then have wf': "\<forall>p\<in>set exampleHaloPoints. periodicIndex_wf p"
    by (simp add: list_all_iff)
  have d: "dedupPoints exampleHaloPoints =
     [\<lparr>globalID = 21, periodIndexToDonor = - 1, CPointFEM.coor = [1, 0, 0]\<rparr>,
      \<lparr>globalID = 30, periodIndexToDonor = - 1, CPointFEM.coor = [5, 0, 0]\<rparr>,
      \<lparr>globalID = 20, periodIndexToDonor = 0, CPointFEM.coor = [0, 0, 0]\<rparr>]"
    by (simp add: dedupPoints_def exampleHaloPoints_def std_sort_def CPointFEM_less_def
        CPointFEM_eq_def)
  have p21: "alreadyPresent exampleMeshPoints
      \<lparr>globalID = 21, periodIndexToDonor = - 1, CPointFEM.coor = [1, 0, 0]\<rparr>"
    by (simp add: alreadyPresent_def exampleMeshPoints_def std_binary_search_def
        std_lower_bound.simps Let_def CPointFEM_less_def)
  have p30: "\<not> alreadyPresent exampleMeshPoints
      \<lparr>globalID = 30, periodIndexToDonor = - 1, CPointFEM.coor = [5, 0, 0]\<rparr>"
    by (simp add: alreadyPresent_def exampleMeshPoints_def std_binary_search_def
        std_lower_bound.simps Let_def CPointFEM_less_def)
  from nonperiodic_halo_points_resolved_first [OF wf', of 100 exampleMeshPoints]
  have "resolveNonPeriodicHalos 100 exampleMeshPoints exampleHaloPoints
           = (exampleMeshPoints
                @ filter (\<lambda>p. nonPeriodic p \<and> \<not> alreadyPresent exampleMeshPoints p)
                    (dedupPoints exampleHaloPoints),
              filter (\<lambda>p. nonPeriodic p \<and> \<not> alreadyPresent exampleMeshPoints p)
                (dedupPoints exampleHaloPoints)
                @ filter (\<lambda>p. \<not> nonPeriodic p) (dedupPoints exampleHaloPoints))"
    by blast
  then show ?thesis
    using wf by (simp add: d p21 p30 nonPeriodic_def)
qed

subsection \<open>The periodic transformation\<close>

text \<open>
  Claim C5. Every halo point coordinate \<open>c\<close> of a periodic group is replaced by
  \<open>R\<^sup>T (c - center) + (center - perTrans)\<close>, where \<open>R\<close> is the rotation about the x axis
  followed by the one about the y axis and the one about the z axis with the
  configured angles: the rotation is applied in the inverse sense, and the added
  translation is the rotation centre minus the configured translation. The global ID
  and the periodic index of the point are kept. (In two dimensions the third
  component of \<open>c - center\<close> is taken as zero.)
\<close>

theorem transformHaloPoint_is_inverse_rotation:
  assumes "length (CPointFEM.coor p) = 3" and "length center = 3" and "length angles = 3"
    and "length perTrans = 3"
  shows "CPointFEM.coor (transformHaloPoint meshDim center angles perTrans p) =
           list_of_vec
             (vec_add
                (mat_vec (mat_transpose (rotation_xyz angles))
                   (vec_sub (lifted_coor meshDim center (CPointFEM.coor p)) (vec_of center)))
                (vec_sub (vec_of center) (vec_of perTrans)))
         \<and> globalID (transformHaloPoint meshDim center angles perTrans p) = globalID p
         \<and> CPointFEM.periodIndexToDonor (transformHaloPoint meshDim center angles perTrans p)
             = CPointFEM.periodIndexToDonor p"
  by (simp add: transformHaloPoint_def applyPeriodicTransformation_def rotMatrix_def
      translationVector_def rotation_xyz_def mat_mult_def rot_x_def rot_y_def rot_z_def
      lifted_coor_def vec_of_def Let_def algebra_simps)

text \<open>Witness for C5: a quarter turn about the z axis with centre \<open>(1, 0, 0)\<close> and
  translation \<open>(0, 0, 1)\<close> sends the point \<open>(2, 0, 0)\<close> to \<open>(1, -1, -1)\<close>.\<close>

theorem transformHaloPoint_is_inverse_rotation_witness:
  "length (CPointFEM.coor \<lparr>globalID = 7, CPointFEM.periodIndexToDonor = 0, CPointFEM.coor = [2, 0, 0]\<rparr>) = 3
   \<and> length [1, 0, 0 :: real] = 3 \<and> length [0, 0, pi / 2] = 3 \<and> length [0, 0, 1 :: real] = 3
   \<and> CPointFEM.coor (transformHaloPoint 3 [1, 0, 0] [0, 0, pi / 2] [0, 0, 1]
        \<lparr>globalID = 7, CPointFEM.periodIndexToDonor = 0, CPointFEM.coor = [2, 0, 0]\<rparr>) = [1, - 1, - 1]"
  using transformHaloPoint_is_inverse_rotation [of
      "\<lparr>globalID = 7, CPointFEM.periodIndexToDonor = 0, CPointFEM.coor = [2, 0, 0]\<rparr>"
      "[1, 0, 0]" "[0, 0, pi / 2]" "[0, 0, 1]" 3]
  by (simp add: rotation_xyz_def mat_mult_def rot_x_def rot_y_def rot_z_def
      lifted_coor_def vec_of_def)

subsection \<open>The owned elements in volElem\<close>

text \<open>On the buffers of the first exchange the loop that copies the owned elements
  writes, for every received element, the entry of \<^verbatim>\<open>volElem\<close> to which
  \<^verbatim>\<open>mapGlobalElemIDToInd\<close> sends its global ID.\<close>

lemma rd_range_mid:
  "L = pre @ xs @ post \<Longrightarrow> rd_range L (length pre) (length xs) = Inr xs"
proof (induction xs arbitrary: pre)
  case Nil
  show ?case by simp
next
  case (Cons x xs)
  have r: "rd L (length pre) = Inr x" using Cons.prems by (simp add: rd_def nth_append)
  have "L = (pre @ [x]) @ xs @ post" using Cons.prems by simp
  from Cons.IH [OF this] have "rd_range L (length pre + 1) (length xs) = Inr xs" by simp
  with r show ?case by simp
qed

lemma rd_range_mid':
  "L = pre @ xs @ post \<Longrightarrow> i = length pre \<Longrightarrow> n = length xs \<Longrightarrow> rd_range L i n = Inr xs"
  by (simp add: rd_range_mid)

lemma rd_faceFlags_mid:
  "S = pre @ concat (map (\<lambda>j. [f j, g j]) js) @ post \<Longrightarrow>
   rd_faceFlags S (length pre) (length js) = Inr (map (\<lambda>j. g j \<noteq> 0) js)"
proof (induction js arbitrary: pre)
  case Nil
  show ?case by simp
next
  case (Cons j js)
  have r: "rd S (length pre + 1) = Inr (g j)" using Cons.prems by (simp add: rd_def nth_append)
  have "S = (pre @ [f j, g j]) @ concat (map (\<lambda>j. [f j, g j]) js) @ post"
    using Cons.prems by simp
  from Cons.IH [OF this]
  have "rd_faceFlags S (length pre + 2) (length js) = Inr (map (\<lambda>j. g j \<noteq> 0) js)" by simp
  with r show ?case by simp
qed

lemma rd_faceFlags_mid':
  "S = pre @ concat (map (\<lambda>j. [f j, g j]) js) @ post \<Longrightarrow> i = length pre \<Longrightarrow> n = length js \<Longrightarrow>
   rd_faceFlags S i n = Inr (map (\<lambda>j. g j \<noteq> 0) js)"
  by (simp add: rd_faceFlags_mid)

lemma storeOwnedElement_packed:
  assumes L: "L = preL @ packElementLong e @ postL"
    and S: "S = preS @ packElementShort e @ postS"
    and m: "m (GetGlobalElemID e) = Some ind" and ind: "ind < length vol"
  shows "storeOwnedElement m rank L S (length preL) (length preS) vol =
      Inr (length (preL @ packElementLong e), length (preS @ packElementShort e),
           vol[ind := ownedVolumeElement rank e (vol ! ind)])"
proof -
  let ?s = "[GetVTK_Type e, GetNPolyGrid e, GetNPolySol e, GetNDOFsGrid e, GetNDOFsSol e,
      GetnFaces e, of_bool (GetJacobianConsideredConstant e)]"
  let ?pf = "concat (map (\<lambda>j. [GetPeriodicIndex e j, of_bool (GetJacobianConstantFace e j)])
         [0..<unat (GetnFaces e)])"
  let ?nodes = "map (GetNode e) [0..<unat (GetNDOFsGrid e)]"
  let ?nbs = "map (GetNeighbor_Elements e) [0..<unat (GetnFaces e)]"
  have r0: "rd L (length preL) = Inr (GetGlobalElemID e)"
    using L by (simp add: rd_def packElementLong_def nth_append)
  have r1: "rd L (length preL + 1) = Inr (GetGlobalOffsetDOFsSol e)"
    using L by (simp add: rd_def packElementLong_def nth_append)
  have S7: "S = preS @ ?s @ (?pf @ postS)" using S by (simp add: packElementShort_def)
  have s: "rd_range S (length preS) 7 = Inr ?s"
    by (rule rd_range_mid' [OF S7]) simp_all
  have Ln: "L = (preL @ [GetGlobalElemID e, GetGlobalOffsetDOFsSol e]) @ ?nodes @ (?nbs @ postL)"
    using L by (simp add: packElementLong_def)
  have n: "rd_range L (length preL + 2) (unat (GetNDOFsGrid e)) = Inr ?nodes"
    by (rule rd_range_mid' [OF Ln]) simp_all
  have Sf: "S = (preS @ ?s) @ ?pf @ postS" using S by (simp add: packElementShort_def)
  have f: "rd_faceFlags S (length preS + 7) (unat (GetnFaces e))
      = Inr (map (\<lambda>k. (of_bool (GetJacobianConstantFace e k) :: short) \<noteq> 0)
           [0..<unat (GetnFaces e)])"
    by (rule rd_faceFlags_mid' [OF Sf]) simp_all
  show ?thesis
    using r0 r1 s n f m ind
    by (simp add: storeOwnedElement_def ownedVolumeElement_def length_packElementLong
        length_packElementShort)
qed


lemma storeOwnedLoop_packed:
  assumes "L = preL @ concat (map packElementLong es) @ postL"
    and "S = preS @ concat (map packElementShort es) @ postS"
    and "\<forall>e\<in>set es. \<exists>ind. m (GetGlobalElemID e) = Some ind \<and> ind < length vol"
  shows "storeOwnedLoop m rank L S (length es) (length preL) (length preS) vol =
      Inr (length preL + length (concat (map packElementLong es)),
           length preS + length (concat (map packElementShort es)),
           fold (\<lambda>e v. v[the (m (GetGlobalElemID e))
                   := ownedVolumeElement rank e (v ! the (m (GetGlobalElemID e)))]) es vol)"
  using assms
proof (induction es arbitrary: preL preS vol)
  case Nil
  show ?case by simp
next
  case (Cons e es)
  from Cons.prems(3) obtain ind where ind: "m (GetGlobalElemID e) = Some ind" "ind < length vol"
    by auto
  let ?vol = "vol[ind := ownedVolumeElement rank e (vol ! ind)]"
  have L: "L = preL @ packElementLong e @ (concat (map packElementLong es) @ postL)"
    using Cons.prems(1) by simp
  have S: "S = preS @ packElementShort e @ (concat (map packElementShort es) @ postS)"
    using Cons.prems(2) by simp
  have L': "L = (preL @ packElementLong e) @ concat (map packElementLong es) @ postL"
    using Cons.prems(1) by simp
  have S': "S = (preS @ packElementShort e) @ concat (map packElementShort es) @ postS"
    using Cons.prems(2) by simp
  have rest: "\<forall>e\<in>set es. \<exists>ind. m (GetGlobalElemID e) = Some ind \<and> ind < length ?vol"
    using Cons.prems(3) by simp
  have se: "storeOwnedElement m rank L S (length preL) (length preS) vol =
      Inr (length (preL @ packElementLong e), length (preS @ packElementShort e), ?vol)"
    by (rule storeOwnedElement_packed [where m = m and e = e, OF L S ind])
  have step: "storeOwnedLoop m rank L S (Suc (length es)) (length preL) (length preS) vol
      = storeOwnedLoop m rank L S (length es) (length (preL @ packElementLong e))
          (length (preS @ packElementShort e)) ?vol"
    by (simp only: storeOwnedLoop.simps se sum.case prod.case)
  have "storeOwnedLoop m rank L S (length (e # es)) (length preL) (length preS) vol
      = storeOwnedLoop m rank L S (Suc (length es)) (length preL) (length preS) vol"
    by simp
  also note step
  also have "storeOwnedLoop m rank L S (length es) (length (preL @ packElementLong e))
          (length (preS @ packElementShort e)) ?vol
      = Inr (length (preL @ packElementLong e) + length (concat (map packElementLong es)),
             length (preS @ packElementShort e) + length (concat (map packElementShort es)),
             fold (\<lambda>e v. v[the (m (GetGlobalElemID e))
                   := ownedVolumeElement rank e (v ! the (m (GetGlobalElemID e)))]) es ?vol)"
    by (rule Cons.IH [OF L' S' rest])
  also have "\<dots> = Inr (length preL + length (concat (map packElementLong (e # es))),
           length preS + length (concat (map packElementShort (e # es))),
           fold (\<lambda>e v. v[the (m (GetGlobalElemID e))
                   := ownedVolumeElement rank e (v ! the (m (GetGlobalElemID e)))])
             (e # es) vol)"
    by (simp add: ind)
  finally show ?case .
qed

lemma length_fold_update [simp]:
  "length (fold (\<lambda>e v. v[idx e := F e v]) es vol) = length vol"
  by (induction es arbitrary: vol) auto


lemma storeNodesLoop_packed:
  assumes "L = preL @ map fst nodes @ postL"
    and "D = preD @ concat (map snd nodes) @ postD"
    and "list_all (\<lambda>node. length (snd node) = meshDim) nodes"
    and "meshDim \<le> length (CPointFEM.coor dfltPoint)"
  shows "storeNodesLoop L D meshDim dfltPoint (length nodes) (length preL) (length preD) pts
     = Inr (length preL + length nodes, length preD + length (concat (map snd nodes)),
            pts @ map (receivedPoint meshDim dfltPoint) nodes)"
  using assms(1,2,3)
proof (induction nodes arbitrary: preL preD pts)
  case Nil
  show ?case by simp
next
  case (Cons node nodes)
  obtain gid xs where node: "node = (gid, xs)" by (cases node) auto
  from Cons.prems(3) have xs: "length xs = meshDim"
    and rest: "list_all (\<lambda>node. length (snd node) = meshDim) nodes"
    by (simp_all add: node)
  have L: "L = preL @ [gid] @ (map fst nodes @ postL)" using Cons.prems(1) by (simp add: node)
  have D: "D = preD @ xs @ (concat (map snd nodes) @ postD)"
    using Cons.prems(2) by (simp add: node)
  have g: "rd L (length preL) = Inr gid"
    using rd_mid' [OF L, of "length preL" 0] by simp
  have c: "rd_range D (length preD) meshDim = Inr xs"
    by (rule rd_range_mid' [OF D refl xs [symmetric]])
  have L': "L = (preL @ [gid]) @ map fst nodes @ postL" using L by simp
  have D': "D = (preD @ xs) @ concat (map snd nodes) @ postD" using D by simp
  let ?p = "dfltPoint\<lparr>globalID := gid, CPointFEM.periodIndexToDonor := - 1,
                     CPointFEM.coor := xs @ drop meshDim (CPointFEM.coor dfltPoint)\<rparr>"
  have lenL: "length preL + 1 = length (preL @ [gid])" by simp
  have lenD: "length preD + meshDim = length (preD @ xs)" by (simp add: xs)
  have ok: "\<not> \<not> meshDim \<le> length (CPointFEM.coor dfltPoint)" using assms(4) by simp
  have step: "storeNodesLoop L D meshDim dfltPoint (Suc (length nodes)) (length preL)
        (length preD) pts
      = storeNodesLoop L D meshDim dfltPoint (length nodes) (length (preL @ [gid]))
          (length (preD @ xs)) (pts @ [?p])"
    by (simp only: storeNodesLoop.simps g c sum.case ok if_False lenL lenD)
  have "storeNodesLoop L D meshDim dfltPoint (length (node # nodes)) (length preL)
        (length preD) pts
      = storeNodesLoop L D meshDim dfltPoint (Suc (length nodes)) (length preL)
          (length preD) pts"
    by simp
  also note step
  also have "storeNodesLoop L D meshDim dfltPoint (length nodes) (length (preL @ [gid]))
          (length (preD @ xs)) (pts @ [?p])
      = Inr (length (preL @ [gid]) + length nodes,
             length (preD @ xs) + length (concat (map snd nodes)),
             (pts @ [?p]) @ map (receivedPoint meshDim dfltPoint) nodes)"
    by (rule Cons.IH [OF L' D' rest])
  also have "\<dots> = Inr (length preL + length (node # nodes),
            length preD + length (concat (map snd (node # nodes))),
            pts @ map (receivedPoint meshDim dfltPoint) (node # nodes))"
    by (simp add: node receivedPoint_def)
  finally show ?case .
qed

lemma storeSurfLoop_packed:
  assumes "L = preL @ concat (map packBoundLong bs) @ postL"
    and "S = preS @ concat (map packBoundShort bs) @ postS"
  shows "storeSurfLoop L S (length bs) (length preL) (length preS) surf
     = Inr (length preL + length (concat (map packBoundLong bs)),
            length preS + length (concat (map packBoundShort bs)),
            surf @ map receivedSurfElem bs)"
  using assms
proof (induction bs arbitrary: preL preS surf)
  case Nil
  show ?case by simp
next
  case (Cons b bs)
  let ?n = "CPrimalGridBoundFEM.GetNDOFsGrid b"
  let ?nodes = "map (CPrimalGridBoundFEM.GetNode b) [0..<unat ?n]"
  have L: "L = preL @ [GetDomainElement b, CPrimalGridBoundFEM.GetGlobalElemID b]
      @ (?nodes @ concat (map packBoundLong bs) @ postL)"
  proof -
    have "packBoundLong b = [GetDomainElement b, CPrimalGridBoundFEM.GetGlobalElemID b] @ ?nodes"
      by (simp add: packBoundLong_def)
    with Cons.prems(1) show ?thesis by simp
  qed
  have L2: "L = (preL @ [GetDomainElement b, CPrimalGridBoundFEM.GetGlobalElemID b])
      @ ?nodes @ (concat (map packBoundLong bs) @ postL)"
    using L by simp
  have S: "S = preS @ packBoundShort b @ (concat (map packBoundShort bs) @ postS)"
    using Cons.prems(2) by simp
  have s: "rd_range S (length preS) 3 = Inr (packBoundShort b)"
    by (rule rd_range_mid' [OF S refl]) (simp add: packBoundShort_def)
  have l: "rd_range L (length preL) 2
      = Inr [GetDomainElement b, CPrimalGridBoundFEM.GetGlobalElemID b]"
    by (rule rd_range_mid' [OF L refl]) simp
  have n: "rd_range L (length preL + 2) (unat ?n) = Inr ?nodes"
    by (rule rd_range_mid' [OF L2]) simp_all
  have s2: "packBoundShort b ! 2 = ?n" "packBoundShort b ! 0 = CPrimalGridBoundFEM.GetVTK_Type b"
    "packBoundShort b ! 1 = CPrimalGridBoundFEM.GetNPolyGrid b"
    by (simp_all add: packBoundShort_def)
  have L': "L = (preL @ packBoundLong b) @ concat (map packBoundLong bs) @ postL"
    using Cons.prems(1) by simp
  have S': "S = (preS @ packBoundShort b) @ concat (map packBoundShort bs) @ postS"
    using Cons.prems(2) by simp
  have lenL: "length preL + 2 + unat ?n = length (preL @ packBoundLong b)"
    by (simp add: packBoundLong_def)
  have lenS: "length preS + 3 = length (preS @ packBoundShort b)"
    by (simp add: packBoundShort_def)
  have el: "\<lparr>CSurfaceElementFEM.VTK_Type = packBoundShort b ! 0,
        CSurfaceElementFEM.nPolyGrid = packBoundShort b ! 1,
        CSurfaceElementFEM.nDOFsGrid = packBoundShort b ! 2,
        volElemID = [GetDomainElement b, CPrimalGridBoundFEM.GetGlobalElemID b] ! 0,
        boundElemIDGlobal = [GetDomainElement b, CPrimalGridBoundFEM.GetGlobalElemID b] ! 1,
        CSurfaceElementFEM.nodeIDsGrid = ?nodes\<rparr> = receivedSurfElem b"
    by (simp add: receivedSurfElem_def packBoundShort_def)
  have n': "rd_range L (length preL + 2) (unat (packBoundShort b ! 2)) = Inr ?nodes"
    using n by (simp only: s2)
  have lenL': "length preL + 2 + unat (packBoundShort b ! 2) = length (preL @ packBoundLong b)"
    using lenL by (simp only: s2)
  have step: "storeSurfLoop L S (Suc (length bs)) (length preL) (length preS) surf
      = storeSurfLoop L S (length bs) (length (preL @ packBoundLong b))
          (length (preS @ packBoundShort b)) (surf @ [receivedSurfElem b])"
    by (simp only: storeSurfLoop.simps s l n' sum.case lenL' lenS el)
  have "storeSurfLoop L S (length (b # bs)) (length preL) (length preS) surf
      = storeSurfLoop L S (Suc (length bs)) (length preL) (length preS) surf"
    by simp
  also note step
  also have "storeSurfLoop L S (length bs) (length (preL @ packBoundLong b))
          (length (preS @ packBoundShort b)) (surf @ [receivedSurfElem b])
      = Inr (length (preL @ packBoundLong b) + length (concat (map packBoundLong bs)),
             length (preS @ packBoundShort b) + length (concat (map packBoundShort bs)),
             (surf @ [receivedSurfElem b]) @ map receivedSurfElem bs)"
    by (rule Cons.IH [OF L' S'])
  also have "\<dots> = Inr (length preL + length (concat (map packBoundLong (b # bs))),
            length preS + length (concat (map packBoundShort (b # bs))),
            surf @ map receivedSurfElem (b # bs))"
    by simp
  finally show ?case .
qed


lemma addSurfElems_step:
  assumes "length B = k + Suc (length bounds)"
  shows "take (Suc k) (B[k := B ! k @ map receivedSurfElem bs])
           @ addSurfElems (drop (Suc k) (B[k := B ! k @ map receivedSurfElem bs])) bounds
       = take k B @ addSurfElems (drop k B) (bs # bounds)"
proof -
  from assms have k: "k < length B" by simp
  have "take (Suc k) (B[k := B ! k @ map receivedSurfElem bs])
      = take k B @ [B ! k @ map receivedSurfElem bs]"
    using k by (simp add: take_Suc_conv_app_nth)
  moreover have "drop (Suc k) (B[k := B ! k @ map receivedSurfElem bs]) = drop (Suc k) B"
    by simp
  moreover have "drop k B = B ! k # drop (Suc k) B"
    using k by (simp add: Cons_nth_drop_Suc)
  ultimately show ?thesis by (simp add: addSurfElems_def)
qed

lemma storeMarkersLoop_packed:
  assumes "L = preL @ packMarkersLong bounds @ postL"
    and "S = preS @ packMarkersShort bounds @ postS"
    and "length L < 2 ^ 63"
    and "length B = k + length bounds"
  shows "storeMarkersLoop L S [k..<k + length bounds] (length preL) (length preS) B
     = Inr (length preL + length (packMarkersLong bounds),
            length preS + length (packMarkersShort bounds),
            take k B @ addSurfElems (drop k B) bounds)"
  using assms
proof (induction bounds arbitrary: preL preS k B)
  case Nil
  show ?case using Nil.prems(4)
    by (simp add: packMarkersLong_def packMarkersShort_def addSurfElems_def)
next
  case (Cons bs bounds)
  let ?hd = "of_nat (length bs) # concat (map packBoundLong bs) :: long list"
  have L: "L = preL @ ?hd @ (packMarkersLong bounds @ postL)"
    using Cons.prems(1) by (simp add: length_packMarkersLong_Cons)
  have L1: "L = (preL @ [of_nat (length bs)]) @ concat (map packBoundLong bs)
      @ (packMarkersLong bounds @ postL)"
    using L by simp
  have S: "S = preS @ concat (map packBoundShort bs) @ (packMarkersShort bounds @ postS)"
    using Cons.prems(2) by (simp add: length_packMarkersShort_Cons)
  have lenL: "length preL + 1 + length (concat (map packBoundLong bs)) \<le> length L"
    by (subst L) simp
  have n: "rd L (length preL) = Inr (of_nat (length bs))"
    using rd_mid' [OF L, of "length preL" 0] by simp
  have "length bs \<le> length (concat (map packBoundLong bs))"
    by (rule length_le_concat_packBoundLong)
  with lenL Cons.prems(3) have "length bs < 2 ^ 64" by simp
  then have cnt: "unat (of_nat (length bs) :: long) = length bs"
    by (rule unat_of_nat_long)
  from Cons.prems(4) have kk: "k < length B" by simp
  have ok: "\<not> \<not> k < length B" using kk by simp
  have "storeSurfLoop L S (length bs) (length (preL @ [of_nat (length bs)])) (length preS)
        (B ! k)
      = Inr (length (preL @ [of_nat (length bs)]) + length (concat (map packBoundLong bs)),
             length preS + length (concat (map packBoundShort bs)),
             B ! k @ map receivedSurfElem bs)"
    by (rule storeSurfLoop_packed [OF L1 S])
  then have inner: "storeSurfLoop L S (length bs) (length preL + 1) (length preS) (B ! k)
      = Inr (length (preL @ ?hd), length (preS @ concat (map packBoundShort bs)),
             B ! k @ map receivedSurfElem bs)"
    by simp
  have L': "L = (preL @ ?hd) @ packMarkersLong bounds @ postL" using L by simp
  have S': "S = (preS @ concat (map packBoundShort bs)) @ packMarkersShort bounds @ postS"
    using S by simp
  let ?B = "B[k := B ! k @ map receivedSurfElem bs]"
  have k': "length ?B = Suc k + length bounds" using Cons.prems(4) by simp
  have upt: "[k..<k + length (bs # bounds)] = k # [Suc k..<Suc k + length bounds]"
  proof -
    have "[k..<Suc k + length bounds] = k # [Suc k..<Suc k + length bounds]"
      by (rule upt_conv_Cons) simp
    then show ?thesis by simp
  qed
  have step: "storeMarkersLoop L S (k # [Suc k..<Suc k + length bounds]) (length preL)
        (length preS) B
      = storeMarkersLoop L S [Suc k..<Suc k + length bounds] (length (preL @ ?hd))
          (length (preS @ concat (map packBoundShort bs))) ?B"
    by (simp only: storeMarkersLoop.simps n sum.case ok if_False cnt inner prod.case)
  have "storeMarkersLoop L S [k..<k + length (bs # bounds)] (length preL) (length preS) B
      = storeMarkersLoop L S (k # [Suc k..<Suc k + length bounds]) (length preL)
          (length preS) B"
    by (simp only: upt)
  also note step
  also have "storeMarkersLoop L S [Suc k..<Suc k + length bounds] (length (preL @ ?hd))
          (length (preS @ concat (map packBoundShort bs))) ?B
      = Inr (length (preL @ ?hd) + length (packMarkersLong bounds),
             length (preS @ concat (map packBoundShort bs)) + length (packMarkersShort bounds),
             take (Suc k) ?B @ addSurfElems (drop (Suc k) ?B) bounds)"
    by (rule Cons.IH [OF L' S' Cons.prems(3) k'])
  also have "\<dots> = Inr (length preL + length (packMarkersLong (bs # bounds)),
            length preS + length (packMarkersShort (bs # bounds)),
            take k B @ addSurfElems (drop k B) (bs # bounds))"
    using addSurfElems_step [of B k bounds bs] Cons.prems(4)
    by (simp add: length_packMarkersLong_Cons length_packMarkersShort_Cons)
  finally show ?case .
qed

lemma length_addSurfElems:
  "length B = length bounds \<Longrightarrow> length (addSurfElems B bounds) = length bounds"
  by (simp add: addSurfElems_def)

lemma storeOwnedRanks_buffer:
  assumes wf: "received_rank_wf nMarker meshDim (es, nodes, bounds)"
    and inmap: "\<forall>e\<in>set es. \<exists>ind. m (GetGlobalElemID e) = Some ind \<and> ind < length vol"
    and dim: "meshDim \<le> length (CPointFEM.coor dfltPoint)"
    and B: "length B = nMarker"
  shows "storeOwnedRanks m rank meshDim nMarker dfltPoint
      ((packElementsLong es @ packNodesLong nodes @ packMarkersLong bounds,
        packElementsShort es @ packMarkersShort bounds,
        packNodesDouble nodes) # bufs) (vol, pts, B)
    = storeOwnedRanks m rank meshDim nMarker dfltPoint bufs
        (fold (\<lambda>e v. v[the (m (GetGlobalElemID e))
                   := ownedVolumeElement rank e (v ! the (m (GetGlobalElemID e)))]) es vol,
         pts @ map (receivedPoint meshDim dfltPoint) nodes,
         addSurfElems B bounds)"
proof -
  let ?L = "packElementsLong es @ packNodesLong nodes @ packMarkersLong bounds"
  let ?S = "packElementsShort es @ packMarkersShort bounds"
  let ?D = "packNodesDouble nodes"
  let ?vol = "fold (\<lambda>e v. v[the (m (GetGlobalElemID e))
                   := ownedVolumeElement rank e (v ! the (m (GetGlobalElemID e)))]) es vol"
  from wf have nb: "length bounds = nMarker" and small: "length ?L < 2 ^ 63"
    and co: "list_all (\<lambda>node. length (snd node) = meshDim) nodes"
    by (simp_all add: received_rank_wf_def)
  have len: "length es < 2 ^ 64" by (rule received_rank_wf_length [OF wf])
  have r: "rd ?L 0 = Inr (of_nat (length es))"
    by (simp add: rd_def packElementsLong_def)
  have L: "?L = [of_nat (length es)] @ concat (map packElementLong es)
      @ (packNodesLong nodes @ packMarkersLong bounds)"
    by (simp add: packElementsLong_def)
  have S: "?S = [] @ concat (map packElementShort es) @ packMarkersShort bounds"
    by (simp add: packElementsShort_def)
  have "storeOwnedLoop m rank ?L ?S
      (length es) (length [of_nat (length es) :: long]) (length ([] :: short list)) vol
    = Inr (length [of_nat (length es) :: long] + length (concat (map packElementLong es)),
           length ([] :: short list) + length (concat (map packElementShort es)), ?vol)"
    by (rule storeOwnedLoop_packed [OF L S inmap])
  then have loop: "storeOwnedLoop m rank ?L ?S (length es) 1 0 vol
    = Inr (length (packElementsLong es), length (packElementsShort es), ?vol)"
    by (simp add: packElementsLong_def packElementsShort_def)
  have L2: "?L = packElementsLong es @ packNodesLong nodes @ (packMarkersLong bounds @ [])"
    by simp
  have nd: "rd ?L (length (packElementsLong es)) = Inr (of_nat (length nodes))"
    using rd_mid' [OF L2, of "length (packElementsLong es)" 0]
    by (simp add: packNodesLong_def)
  have "length nodes \<le> length ?L" by (simp add: packNodesLong_def)
  with small have "length nodes < 2 ^ 64" by simp
  then have ncnt: "unat (of_nat (length nodes) :: long) = length nodes"
    by (rule unat_of_nat_long)
  have L3: "?L = (packElementsLong es @ [of_nat (length nodes)]) @ map fst nodes
      @ packMarkersLong bounds"
    by (simp add: packNodesLong_def)
  have D3: "?D = [] @ concat (map snd nodes) @ []" by (simp add: packNodesDouble_def)
  have "storeNodesLoop ?L ?D meshDim dfltPoint (length nodes)
      (length (packElementsLong es @ [of_nat (length nodes)])) (length ([] :: real list)) pts
    = Inr (length (packElementsLong es @ [of_nat (length nodes)]) + length nodes,
           length ([] :: real list) + length (concat (map snd nodes)),
           pts @ map (receivedPoint meshDim dfltPoint) nodes)"
    by (rule storeNodesLoop_packed [OF L3 D3 co dim])
  then have nodes: "storeNodesLoop ?L ?D meshDim dfltPoint (length nodes)
      (length (packElementsLong es) + 1) 0 pts
    = Inr (length (packElementsLong es @ packNodesLong nodes),
           length (concat (map snd nodes)),
           pts @ map (receivedPoint meshDim dfltPoint) nodes)"
    by (simp add: packNodesLong_def)
  have L4: "?L = (packElementsLong es @ packNodesLong nodes) @ packMarkersLong bounds @ []"
    by simp
  have S4: "?S = packElementsShort es @ packMarkersShort bounds @ []" by simp
  have k: "length B = 0 + length bounds" using B nb by simp
  have "storeMarkersLoop ?L ?S [0..<0 + length bounds]
      (length (packElementsLong es @ packNodesLong nodes)) (length (packElementsShort es)) B
    = Inr (length (packElementsLong es @ packNodesLong nodes) + length (packMarkersLong bounds),
           length (packElementsShort es) + length (packMarkersShort bounds),
           take 0 B @ addSurfElems (drop 0 B) bounds)"
    by (rule storeMarkersLoop_packed [OF L4 S4 small k])
  then have markers: "storeMarkersLoop ?L ?S [0..<nMarker]
      (length (packElementsLong es @ packNodesLong nodes)) (length (packElementsShort es)) B
    = Inr (length (packElementsLong es @ packNodesLong nodes) + length (packMarkersLong bounds),
           length (packElementsShort es) + length (packMarkersShort bounds),
           addSurfElems B bounds)"
    by (simp add: nb)
  show ?thesis
    by (simp only: storeOwnedRanks.simps r sum.case unat_of_nat_long [OF len] loop
        prod.case nd ncnt nodes markers)
qed

lemma storeOwnedRanks_received:
  assumes "received_wf nMarker meshDim received"
    and "\<forall>e\<in>set (receivedElements received).
           \<exists>ind. m (GetGlobalElemID e) = Some ind \<and> ind < length vol"
    and "meshDim \<le> length (CPointFEM.coor dfltPoint)"
    and "length B = nMarker"
  shows "storeOwnedRanks m rank meshDim nMarker dfltPoint
      (zip (receivedLong received) (zip (receivedShort received) (receivedDouble received)))
      (vol, pts, B)
     = Inr (fold (\<lambda>e v. v[the (m (GetGlobalElemID e))
                   := ownedVolumeElement rank e (v ! the (m (GetGlobalElemID e)))])
              (receivedElements received) vol,
            pts @ receivedMeshPoints meshDim dfltPoint received,
            fold (\<lambda>(es, nodes, bounds) boundaries. addSurfElems boundaries bounds) received B)"
  using assms(1,2,4)
proof (induction received arbitrary: vol pts B)
  case Nil
  show ?case
    by (simp add: receivedLong_def receivedShort_def receivedDouble_def receivedElements_def
        receivedMeshPoints_def)
next
  case (Cons r received)
  obtain es nodes bounds where r: "r = (es, nodes, bounds)" by (cases r) auto
  let ?vol = "fold (\<lambda>e v. v[the (m (GetGlobalElemID e))
                   := ownedVolumeElement rank e (v ! the (m (GetGlobalElemID e)))]) es vol"
  from Cons.prems(1) have rwf: "received_rank_wf nMarker meshDim (es, nodes, bounds)"
    and wf: "received_wf nMarker meshDim received"
    by (simp_all add: received_wf_def r)
  from rwf have nb: "length bounds = nMarker" by (simp add: received_rank_wf_def)
  have here: "\<forall>e\<in>set es. \<exists>ind. m (GetGlobalElemID e) = Some ind \<and> ind < length vol"
    using Cons.prems(2) by (simp add: receivedElements_def r)
  have later: "\<forall>e\<in>set (receivedElements received).
      \<exists>ind. m (GetGlobalElemID e) = Some ind \<and> ind < length ?vol"
    using Cons.prems(2) by (simp add: receivedElements_def r)
  have B': "length (addSurfElems B bounds) = nMarker"
    using length_addSurfElems [of B bounds] Cons.prems(3) nb by simp
  have "storeOwnedRanks m rank meshDim nMarker dfltPoint
      (zip (receivedLong (r # received))
        (zip (receivedShort (r # received)) (receivedDouble (r # received)))) (vol, pts, B)
    = storeOwnedRanks m rank meshDim nMarker dfltPoint
        (zip (receivedLong received) (zip (receivedShort received) (receivedDouble received)))
        (?vol, pts @ map (receivedPoint meshDim dfltPoint) nodes, addSurfElems B bounds)"
    using storeOwnedRanks_buffer [OF rwf here assms(3) Cons.prems(3)]
    by (simp add: receivedLong_def receivedShort_def receivedDouble_def r)
  also have "\<dots> = Inr (fold (\<lambda>e v. v[the (m (GetGlobalElemID e))
                   := ownedVolumeElement rank e (v ! the (m (GetGlobalElemID e)))])
              (receivedElements received) ?vol,
            (pts @ map (receivedPoint meshDim dfltPoint) nodes)
              @ receivedMeshPoints meshDim dfltPoint received,
            fold (\<lambda>(es, nodes, bounds) boundaries. addSurfElems boundaries bounds) received
              (addSurfElems B bounds))"
    by (rule Cons.IH [OF wf later B'])
  finally show ?case by (simp add: receivedElements_def receivedMeshPoints_def r)
qed

lemma fold_update_other:
  "i \<notin> idx ` set es \<Longrightarrow> fold (\<lambda>e v. v[idx e := F e v]) es vol ! i = vol ! i"
  by (induction es arbitrary: vol) auto

lemma fold_update_at:
  assumes "distinct (map idx es)" and "e \<in> set es" and "idx e < length vol"
  shows "\<exists>v. fold (\<lambda>e v. v[idx e := F e v]) es vol ! idx e = F e v"
  using assms
proof (induction es arbitrary: vol)
  case Nil
  then show ?case by simp
next
  case (Cons a es)
  show ?case
  proof (cases "e \<in> set es")
    case True
    with Cons.prems have "distinct (map idx es)" "idx e < length (vol[idx a := F a vol])"
      by simp_all
    from Cons.IH [OF this(1) True this(2)] show ?thesis by simp
  next
    case False
    with Cons.prems have ea: "e = a" and "idx a \<notin> idx ` set es" by auto
    then have "fold (\<lambda>e v. v[idx e := F e v]) es (vol[idx a := F a vol]) ! idx a
        = vol[idx a := F a vol] ! idx a"
      by (simp add: fold_update_other)
    with Cons.prems(3) ea show ?thesis by (intro exI [of _ vol]) simp
  qed
qed

lemma mapGlobalElemIDToInd_nth:
  assumes "distinct gids" and "i < length gids"
  shows "mapGlobalElemIDToInd (allocateVolumeElements dflt gids hs) (gids ! i) = Some i"
  using fold_index_map_distinct [OF assms(1) le_refl assms(2), of "\<lambda>i. i" Map.empty]
  by (simp add: allocateVolumeElements_def Let_def)

lemma sorted_owned_ids:
  assumes "distinct ids"
  shows "sorted_wrt (<) (std_sort (<) ids :: ulong list)"
    and "distinct (std_sort (<) ids :: ulong list)"
    and "set (std_sort (<) ids) = set ids"
    and "length (std_sort (<) ids) = length ids"
proof -
  have k: "std_sort (<) ids = sort_key (\<lambda>x. x) ids"
    by (rule std_sort_key) simp
  show "distinct (std_sort (<) ids)" using assms by (simp add: k)
  then show "sorted_wrt (<) (std_sort (<) ids)" by (simp add: k strict_sorted_iff)
  show "set (std_sort (<) ids) = set ids" by (simp add: k)
  show "length (std_sort (<) ids) = length ids" by (simp add: k)
qed



lemma storeOwnedElements_layout:
  fixes received dflt hs rank
  defines "es \<equiv> receivedElements received"
  defines "gids \<equiv> std_sort (<) (map GetGlobalElemID es)"
  defines "lay \<equiv> allocateVolumeElements dflt gids hs"
  assumes wf: "received_wf nMarker meshDim received"
    and dist: "distinct (map GetGlobalElemID es)"
    and dim: "meshDim \<le> length (CPointFEM.coor dfltPoint)"
  shows "\<exists>v1. storeOwnedElements (mapGlobalElemIDToInd lay) rank meshDim nMarker dfltPoint
               (receivedLong received) (receivedShort received) (receivedDouble received)
               (volElem lay)
             = Inr (v1, receivedMeshPoints meshDim dfltPoint received,
                    receivedBoundaries nMarker received)
          \<and> length v1 = length gids + length hs
          \<and> (\<forall>i<length gids. elemIsOwned (v1 ! i) \<and> elemIDGlobal (v1 ! i) = gids ! i)
          \<and> (\<forall>i. length gids \<le> i \<and> i < length v1 \<longrightarrow> v1 ! i = dflt)"
proof -
  let ?m = "mapGlobalElemIDToInd lay"
  let ?idx = "\<lambda>e. the (?m (GetGlobalElemID e))"
  let ?F = "\<lambda>e v. ownedVolumeElement rank e (v ! the (?m (GetGlobalElemID e)))"
  let ?v1 = "fold (\<lambda>e v. v[?idx e := ?F e v]) es (volElem lay)"
  note so = sorted_owned_ids [OF dist, folded gids_def]
  have len0: "length (volElem lay) = length gids + length hs"
    by (simp add: lay_def allocateVolumeElements_def Let_def)
  have m_nth: "?m (gids ! i) = Some i" if "i < length gids" for i
    unfolding lay_def by (rule mapGlobalElemIDToInd_nth [OF so(2) that])
  have pos: "\<exists>i<length gids. gids ! i = GetGlobalElemID e" if "e \<in> set es" for e
  proof -
    from that have "GetGlobalElemID e \<in> set gids" by (simp add: so(3))
    then show ?thesis by (auto simp: in_set_conv_nth)
  qed
  have idx: "?m (GetGlobalElemID e) = Some (?idx e) \<and> ?idx e < length gids
      \<and> gids ! ?idx e = GetGlobalElemID e" if "e \<in> set es" for e
  proof -
    from pos [OF that] obtain i where i: "i < length gids" "gids ! i = GetGlobalElemID e"
      by blast
    with m_nth [of i] show ?thesis by simp
  qed
  have inmap: "\<forall>e\<in>set es. \<exists>ind. ?m (GetGlobalElemID e) = Some ind \<and> ind < length (volElem lay)"
    using idx len0 by (metis trans_less_add1)
  have run: "storeOwnedElements ?m rank meshDim nMarker dfltPoint
      (receivedLong received) (receivedShort received) (receivedDouble received) (volElem lay)
      = Inr (?v1, receivedMeshPoints meshDim dfltPoint received,
             receivedBoundaries nMarker received)"
    using storeOwnedRanks_received [OF wf inmap [unfolded es_def] dim,
        of "replicate nMarker []" rank "[]"]
    by (simp add: storeOwnedElements_def es_def receivedBoundaries_def)
  have didx: "distinct (map ?idx es)"
  proof -
    have "inj_on ?idx (set es)"
    proof (rule inj_onI)
      fix a b assume ab: "a \<in> set es" "b \<in> set es" "?idx a = ?idx b"
      from idx [OF ab(1)] idx [OF ab(2)] ab(3)
      have "GetGlobalElemID a = GetGlobalElemID b" by metis
      with dist ab(1,2) show "a = b" by (meson distinct_map inj_onD)
    qed
    moreover from dist have "distinct es" by (simp add: distinct_map)
    ultimately show ?thesis by (simp add: distinct_map)
  qed
  have owned: "elemIsOwned (?v1 ! i) \<and> elemIDGlobal (?v1 ! i) = gids ! i"
    if "i < length gids" for i
  proof -
    from that have "gids ! i \<in> set (map GetGlobalElemID es)"
      using so(3) nth_mem by blast
    then obtain e where e: "e \<in> set es" "GetGlobalElemID e = gids ! i" by auto
    from idx [OF e(1)] e(2) m_nth [OF that] have i: "?idx e = i" by simp
    have "?idx e < length (volElem lay)" using i that len0 by simp
    from fold_update_at [of ?idx es e "volElem lay" ?F, OF didx e(1) this]
    obtain v where "?v1 ! ?idx e = ownedVolumeElement rank e (v ! ?idx e)" by blast
    with i e(2) show ?thesis by (simp add: ownedVolumeElement_def)
  qed
  have rest: "?v1 ! i = dflt" if "length gids \<le> i" "i < length ?v1" for i
  proof -
    have "i \<notin> ?idx ` set es" using idx that(1) by fastforce
    then have "?v1 ! i = volElem lay ! i" by (rule fold_update_other)
    also have "\<dots> = dflt"
      using that(2) by (simp add: lay_def allocateVolumeElements_def Let_def)
    finally show ?thesis .
  qed
  have "length ?v1 = length gids + length hs" using len0 by simp
  with run owned rest show ?thesis by blast
qed

subsection \<open>The halo round trip\<close>

lemma requestSlots_records:
  "map (\<lambda>r. fst (snd r)) (requestedRecords g L 0 (length L div 3)) = requestSlots L"
  by (simp add: requestedRecords_def requestSlots_def o_def)


lemma length_packHaloLong:
  "length (packHaloLong r) = 3 + unat (GetNDOFsGrid (snd (snd (snd r))))"
  by (cases r) (simp add: packHaloLong_def)

lemma length_packHaloShort: "length (packHaloShort r) = 7"
  by (cases r) (simp add: packHaloShort_def)

lemma storeHaloElement_packed:
  assumes L: "L = preL @ packHaloLong r @ postL"
    and S: "S = preS @ packHaloShort r @ postS"
    and slot: "unat (fst (snd r)) < length vol"
  shows "storeHaloElement L S (length preL) (length preS) vol =
      Inr (length (preL @ packHaloLong r), length (preS @ packHaloShort r),
           vol[unat (fst (snd r)) := haloVolumeElement r (vol ! unat (fst (snd r)))])"
proof -
  obtain gid indV per e where r: "r = (gid, indV, per, e)" by (cases r) auto
  let ?l = "[gid, indV, GetColor e]"
  let ?nodes = "map (GetNode e) [0..<unat (GetNDOFsGrid e)]"
  let ?s = "[per, GetVTK_Type e, GetNPolyGrid e, GetNPolySol e, GetNDOFsGrid e,
         GetNDOFsSol e, GetnFaces e]"
  have L3: "L = preL @ ?l @ (?nodes @ postL)" using L by (simp add: r packHaloLong_def)
  have l: "rd_range L (length preL) 3 = Inr ?l"
    by (rule rd_range_mid' [OF L3]) simp_all
  have S7: "S = preS @ ?s @ postS" using S by (simp add: r packHaloShort_def)
  have s: "rd_range S (length preS) 7 = Inr ?s"
    by (rule rd_range_mid' [OF S7]) simp_all
  have Ln: "L = (preL @ ?l) @ ?nodes @ postL" using L by (simp add: r packHaloLong_def)
  have n: "rd_range L (length preL + 3) (unat (GetNDOFsGrid e)) = Inr ?nodes"
    by (rule rd_range_mid' [OF Ln]) simp_all
  show ?thesis
    using l s n slot
    by (simp add: storeHaloElement_def r haloVolumeElement_def packHaloLong_def
        packHaloShort_def)
qed

lemma storeHaloLoop_packed:
  assumes "L = preL @ concat (map packHaloLong rs) @ postL"
    and "S = preS @ concat (map packHaloShort rs) @ postS"
    and "\<forall>r\<in>set rs. unat (fst (snd r)) < length vol"
  shows "storeHaloLoop L S (length rs) (length preL) (length preS) vol =
      Inr (length preL + length (concat (map packHaloLong rs)),
           length preS + length (concat (map packHaloShort rs)),
           fold (\<lambda>r v. v[unat (fst (snd r)) := haloVolumeElement r (v ! unat (fst (snd r)))])
             rs vol)"
  using assms
proof (induction rs arbitrary: preL preS vol)
  case Nil
  show ?case by simp
next
  case (Cons r rs)
  let ?vol = "vol[unat (fst (snd r)) := haloVolumeElement r (vol ! unat (fst (snd r)))]"
  have slot: "unat (fst (snd r)) < length vol" using Cons.prems(3) by simp
  have L: "L = preL @ packHaloLong r @ (concat (map packHaloLong rs) @ postL)"
    using Cons.prems(1) by simp
  have S: "S = preS @ packHaloShort r @ (concat (map packHaloShort rs) @ postS)"
    using Cons.prems(2) by simp
  have L': "L = (preL @ packHaloLong r) @ concat (map packHaloLong rs) @ postL"
    using Cons.prems(1) by simp
  have S': "S = (preS @ packHaloShort r) @ concat (map packHaloShort rs) @ postS"
    using Cons.prems(2) by simp
  have rest: "\<forall>r\<in>set rs. unat (fst (snd r)) < length ?vol"
    using Cons.prems(3) by simp
  have se: "storeHaloElement L S (length preL) (length preS) vol =
      Inr (length (preL @ packHaloLong r), length (preS @ packHaloShort r), ?vol)"
    by (rule storeHaloElement_packed [OF L S slot])
  have step: "storeHaloLoop L S (Suc (length rs)) (length preL) (length preS) vol
      = storeHaloLoop L S (length rs) (length (preL @ packHaloLong r))
          (length (preS @ packHaloShort r)) ?vol"
    by (simp only: storeHaloLoop.simps se sum.case prod.case)
  have "storeHaloLoop L S (length (r # rs)) (length preL) (length preS) vol
      = storeHaloLoop L S (Suc (length rs)) (length preL) (length preS) vol"
    by simp
  also note step
  also have "storeHaloLoop L S (length rs) (length (preL @ packHaloLong r))
          (length (preS @ packHaloShort r)) ?vol
      = Inr (length (preL @ packHaloLong r) + length (concat (map packHaloLong rs)),
             length (preS @ packHaloShort r) + length (concat (map packHaloShort rs)),
             fold (\<lambda>r v. v[unat (fst (snd r))
                     := haloVolumeElement r (v ! unat (fst (snd r)))]) rs ?vol)"
    by (rule Cons.IH [OF L' S' rest])
  also have "\<dots> = Inr (length preL + length (concat (map packHaloLong (r # rs))),
           length preS + length (concat (map packHaloShort (r # rs))),
           fold (\<lambda>r v. v[unat (fst (snd r))
                     := haloVolumeElement r (v ! unat (fst (snd r)))]) (r # rs) vol)"
    by simp
  finally show ?case .
qed

lemma fold_update_written:
  assumes "i \<in> idx ` set es" and "i < length vol"
  shows "\<exists>e v. fold (\<lambda>e v. v[idx e := F e v]) es vol ! i = F e v"
  using assms
proof (induction es arbitrary: vol)
  case Nil
  then show ?case by simp
next
  case (Cons a es)
  show ?case
  proof (cases "i \<in> idx ` set es")
    case True
    from Cons.IH [OF True, of "vol[idx a := F a vol]"] Cons.prems(2) show ?thesis by simp
  next
    case False
    with Cons.prems(1) have ia: "idx a = i" by auto
    from False have "fold (\<lambda>e v. v[idx e := F e v]) es (vol[idx a := F a vol]) ! i
        = vol[idx a := F a vol] ! i"
      by (rule fold_update_other)
    with ia Cons.prems(2) show ?thesis by (intro exI [of _ a] exI [of _ vol]) simp
  qed
qed


lemma length_requestedRecords [simp]: "length (requestedRecords g L indL n) = n"
  by (simp add: requestedRecords_def)


lemma haloCoordLoop_result:
  "haloCoordLoop pm co d ns D0 = Inr D \<Longrightarrow>
     D = D0 @ concat (map (\<lambda>n. map (co (the (pm (long0 n)))) [0..<d]) ns)"
proof (induction ns arbitrary: D0)
  case Nil
  then show ?case by simp
next
  case (Cons n ns)
  from Cons.prems obtain ind where ind: "pm (long0 n) = Some ind"
    and rest: "haloCoordLoop pm co d ns (D0 @ map (co ind) [0..<d]) = Inr D"
    by (auto split: option.splits)
  from Cons.IH [OF rest] show ?case by (simp add: ind)
qed

lemma storeHaloPointsLoop_packed:
  assumes "L = preL @ map long0 ns @ postL"
    and "S = preS @ map (\<lambda>n. ucast (long1 n) - 1) ns @ postS"
    and "D = preD @ concat (map (\<lambda>n. map (co (the (pm (long0 n)))) [0..<d]) ns) @ postD"
    and "d \<le> length (CPointFEM.coor dfltPoint)"
  shows "storeHaloPointsLoop L S D d dfltPoint (length ns) (length preL) (length preS)
           (length preD) hp
     = Inr (length preL + length ns, length preS + length ns,
            length preD + length (concat (map (\<lambda>n. map (co (the (pm (long0 n)))) [0..<d]) ns)),
            hp @ map (haloPointOf pm co d dfltPoint) ns)"
  using assms(1,2,3)
proof (induction ns arbitrary: preL preS preD hp)
  case Nil
  show ?case by simp
next
  case (Cons n ns)
  let ?xs = "map (co (the (pm (long0 n)))) [0..<d]"
  let ?per = "ucast (long1 n) - 1 :: short"
  have L: "L = preL @ [long0 n] @ (map long0 ns @ postL)" using Cons.prems(1) by simp
  have S: "S = preS @ [?per] @ (map (\<lambda>n. ucast (long1 n) - 1) ns @ postS)"
    using Cons.prems(2) by simp
  have D: "D = preD @ ?xs
      @ (concat (map (\<lambda>n. map (co (the (pm (long0 n)))) [0..<d]) ns) @ postD)"
    using Cons.prems(3) by simp
  have g: "rd L (length preL) = Inr (long0 n)"
    using rd_mid' [OF L, of "length preL" 0] by simp
  have p: "rd S (length preS) = Inr ?per"
    using rd_mid' [OF S, of "length preS" 0] by simp
  have c: "rd_range D (length preD) d = Inr ?xs"
    by (rule rd_range_mid' [OF D refl]) simp
  have L': "L = (preL @ [long0 n]) @ map long0 ns @ postL" using L by simp
  have S': "S = (preS @ [?per]) @ map (\<lambda>n. ucast (long1 n) - 1) ns @ postS" using S by simp
  have D': "D = (preD @ ?xs)
      @ concat (map (\<lambda>n. map (co (the (pm (long0 n)))) [0..<d]) ns) @ postD"
    using D by simp
  have lenL: "length preL + 1 = length (preL @ [long0 n])" by simp
  have lenS: "length preS + 1 = length (preS @ [?per])" by simp
  have lenD: "length preD + d = length (preD @ ?xs)" by simp
  have ok: "\<not> \<not> d \<le> length (CPointFEM.coor dfltPoint)" using assms(4) by simp
  have pt: "dfltPoint\<lparr>globalID := long0 n, CPointFEM.periodIndexToDonor := ?per,
        CPointFEM.coor := ?xs @ drop d (CPointFEM.coor dfltPoint)\<rparr>
      = haloPointOf pm co d dfltPoint n"
    by (simp add: haloPointOf_def)
  have step: "storeHaloPointsLoop L S D d dfltPoint (Suc (length ns)) (length preL)
        (length preS) (length preD) hp
      = storeHaloPointsLoop L S D d dfltPoint (length ns) (length (preL @ [long0 n]))
          (length (preS @ [?per])) (length (preD @ ?xs)) (hp @ [haloPointOf pm co d dfltPoint n])"
    by (simp only: storeHaloPointsLoop.simps g p c sum.case ok if_False lenL lenS lenD pt)
  have "storeHaloPointsLoop L S D d dfltPoint (length (n # ns)) (length preL)
        (length preS) (length preD) hp
      = storeHaloPointsLoop L S D d dfltPoint (Suc (length ns)) (length preL)
        (length preS) (length preD) hp"
    by simp
  also note step
  also have "storeHaloPointsLoop L S D d dfltPoint (length ns) (length (preL @ [long0 n]))
          (length (preS @ [?per])) (length (preD @ ?xs)) (hp @ [haloPointOf pm co d dfltPoint n])
      = Inr (length (preL @ [long0 n]) + length ns, length (preS @ [?per]) + length ns,
            length (preD @ ?xs)
              + length (concat (map (\<lambda>n. map (co (the (pm (long0 n)))) [0..<d]) ns)),
            (hp @ [haloPointOf pm co d dfltPoint n]) @ map (haloPointOf pm co d dfltPoint) ns)"
    by (rule Cons.IH [OF L' S' D'])
  also have "\<dots> = Inr (length preL + length (n # ns), length preS + length (n # ns),
            length preD
              + length (concat (map (\<lambda>n. map (co (the (pm (long0 n)))) [0..<d]) (n # ns))),
            hp @ map (haloPointOf pm co d dfltPoint) (n # ns))"
    by simp
  finally show ?case .
qed


lemma storeHaloRanks_answer:
  assumes ans: "haloAnswer d r req = Inr (L, S, D)"
    and small: "length L < 2 ^ 63"
    and n: "length req div 3 < 2 ^ 63"
    and slots: "\<forall>s\<in>set (requestSlots req). unat s < length vol"
    and dim: "d \<le> length (CPointFEM.coor dfltPoint)"
  shows "\<exists>vol' hp'. (\<forall>bufs. storeHaloRanks d dfltPoint ((L, S, D) # bufs) (vol, hp)
                         = storeHaloRanks d dfltPoint bufs (vol', hp'))
      \<and> length vol' = length vol
      \<and> (\<forall>i\<in>unat ` set (requestSlots req). \<not> elemIsOwned (vol' ! i))
      \<and> (\<forall>i. i \<notin> unat ` set (requestSlots req) \<longrightarrow> vol' ! i = vol ! i)"
proof -
  obtain g pm co where r: "r = (g, pm, co)" by (cases r) auto
  let ?n = "length req div 3"
  let ?rs = "requestedRecords g req 0 ?n"
  let ?idx = "\<lambda>r :: halo_record. unat (fst (snd r))"
  let ?F = "\<lambda>(r :: halo_record) v. haloVolumeElement r (v ! unat (fst (snd r)))"
  let ?vol = "fold (\<lambda>r v. v[?idx r := ?F r v]) ?rs vol"
  from ans obtain a where a: "answerHaloRequests g req = Inr a"
    and pts: "answerHaloPoints pm co d a = Inr (L, S, D)"
    by (auto simp: haloAnswer_def r split: sum.splits)
  define ns where "ns = dedupHaloElements (nodeIDs a)"
  from pts have co: "haloCoordLoop pm co d ns [] = Inr D"
    and L: "L = longSendBuf a @ of_nat (length ns) # map long0 ns"
    and S: "S = shortSendBuf a @ map (\<lambda>n. ucast (long1 n) - 1) ns"
    by (auto simp: answerHaloPoints_def Let_def ns_def split: sum.splits)
  from a have "answerHaloLoop g req ?n 0
      \<lparr>shortSendBuf = [], longSendBuf = [of_nat ?n], nodeIDs = []\<rparr> = Inr a"
    by (simp add: answerHaloRequests_def Let_def)
  from answerHaloLoop_packed [OF this]
  have la: "longSendBuf a = [of_nat ?n] @ concat (map packHaloLong ?rs)"
    and sa: "shortSendBuf a = [] @ concat (map packHaloShort ?rs)" by simp_all
  have L': "L = [of_nat ?n] @ concat (map packHaloLong ?rs)
      @ (of_nat (length ns) # map long0 ns)" using L la by simp
  have S': "S = [] @ concat (map packHaloShort ?rs) @ map (\<lambda>n. ucast (long1 n) - 1) ns"
    using S sa by simp
  have "map ?idx ?rs = map unat (map (\<lambda>r. fst (snd r)) ?rs)" by (simp add: o_def)
  then have "map ?idx ?rs = map unat (requestSlots req)"
    by (simp only: requestSlots_records)
  then have "set (map ?idx ?rs) = set (map unat (requestSlots req))" by (rule arg_cong)
  then have img: "?idx ` set ?rs = unat ` set (requestSlots req)" by (simp only: set_map)
  have sl: "\<forall>r\<in>set ?rs. ?idx r < length vol"
  proof
    fix r assume "r \<in> set ?rs"
    then have "?idx r \<in> ?idx ` set ?rs" by (rule imageI)
    then have "?idx r \<in> unat ` set (requestSlots req)" by (simp only: img)
    with slots show "?idx r < length vol" by auto
  qed
  have "storeHaloLoop L S (length ?rs) (length [of_nat ?n :: long]) (length ([] :: short list))
      vol = Inr (length [of_nat ?n :: long] + length (concat (map packHaloLong ?rs)),
           length ([] :: short list) + length (concat (map packHaloShort ?rs)), ?vol)"
    by (rule storeHaloLoop_packed [OF L' S' sl])
  then have loop: "storeHaloLoop L S ?n 1 0 vol
      = Inr (length (longSendBuf a), length (shortSendBuf a), ?vol)"
    by (simp add: la sa)
  have r0: "rd L 0 = Inr (of_nat ?n)" using L' by (simp add: rd_def)
  have L2: "L = longSendBuf a @ [of_nat (length ns)] @ (map long0 ns @ [])" using L by simp
  have np: "rd L (length (longSendBuf a)) = Inr (of_nat (length ns))"
    using rd_mid' [OF L2, of "length (longSendBuf a)" 0] by simp
  have "length ns \<le> length L" by (simp add: L)
  with small have "length ns < 2 ^ 63" by simp
  then have cnt: "nat (sint (of_nat (length ns) :: long)) = length ns"
    by (simp add: sint_of_nat_long)
  have L3: "L = (longSendBuf a @ [of_nat (length ns)]) @ map long0 ns @ []" using L by simp
  have S3: "S = shortSendBuf a @ map (\<lambda>n. ucast (long1 n) - 1) ns @ []" using S by simp
  have D3: "D = [] @ concat (map (\<lambda>n. map (co (the (pm (long0 n)))) [0..<d]) ns) @ []"
    using haloCoordLoop_result [OF co] by simp
  have "storeHaloPointsLoop L S D d dfltPoint (length ns)
      (length (longSendBuf a @ [of_nat (length ns)])) (length (shortSendBuf a))
      (length ([] :: real list)) hp
    = Inr (length (longSendBuf a @ [of_nat (length ns)]) + length ns,
           length (shortSendBuf a) + length ns,
           length ([] :: real list)
             + length (concat (map (\<lambda>n. map (co (the (pm (long0 n)))) [0..<d]) ns)),
           hp @ map (haloPointOf pm co d dfltPoint) ns)"
    by (rule storeHaloPointsLoop_packed [OF L3 S3 D3 dim])
  then have points: "storeHaloPointsLoop L S D d dfltPoint (length ns)
      (length (longSendBuf a) + 1) (length (shortSendBuf a)) 0 hp
    = Inr (length (longSendBuf a @ [of_nat (length ns)]) + length ns,
           length (shortSendBuf a) + length ns,
           length (concat (map (\<lambda>n. map (co (the (pm (long0 n)))) [0..<d]) ns)),
           hp @ map (haloPointOf pm co d dfltPoint) ns)"
    by simp
  have run: "\<forall>bufs. storeHaloRanks d dfltPoint ((L, S, D) # bufs) (vol, hp)
      = storeHaloRanks d dfltPoint bufs (?vol, hp @ map (haloPointOf pm co d dfltPoint) ns)"
    by (simp only: storeHaloRanks.simps r0 sum.case sint_of_nat_long [OF n] nat_int loop
        prod.case np cnt points) simp
  have len: "length ?vol = length vol" by simp
  have written: "\<forall>i\<in>unat ` set (requestSlots req). \<not> elemIsOwned (?vol ! i)"
  proof
    fix i assume i: "i \<in> unat ` set (requestSlots req)"
    then have "i \<in> ?idx ` set ?rs" by (simp only: img)
    moreover from i slots have "i < length vol" by auto
    ultimately obtain e v where "?vol ! i = ?F e v"
      using fold_update_written [of i ?idx ?rs vol ?F] by blast
    then show "\<not> elemIsOwned (?vol ! i)"
      by (cases e) (simp add: haloVolumeElement_def)
  qed
  have other: "\<forall>i. i \<notin> unat ` set (requestSlots req) \<longrightarrow> ?vol ! i = vol ! i"
  proof (intro allI impI)
    fix i assume "i \<notin> unat ` set (requestSlots req)"
    then have "i \<notin> ?idx ` set ?rs" by (simp only: img) simp
    then show "?vol ! i = vol ! i" by (rule fold_update_other)
  qed
  from run len written other show ?thesis by blast
qed

lemma storeHaloRanks_exchange:
  assumes "exchange_wf d exch"
    and "\<forall>req\<in>set (map fst exch). length req div 3 < 2 ^ 63
           \<and> (\<forall>s\<in>set (requestSlots req). unat s < length vol)"
    and dim: "d \<le> length (CPointFEM.coor dfltPoint)"
  shows "\<exists>vol' hp'. storeHaloRanks d dfltPoint (haloRecvBufs exch) (vol, hp) = Inr (vol', hp')
      \<and> length vol' = length vol
      \<and> (\<forall>i\<in>unat ` set (concat (map requestSlots (map fst exch))). \<not> elemIsOwned (vol' ! i))
      \<and> (\<forall>i. i \<notin> unat ` set (concat (map requestSlots (map fst exch))) \<longrightarrow> vol' ! i = vol ! i)"
  using assms(1,2)
proof (induction exch arbitrary: vol hp)
  case Nil
  show ?case by (simp add: haloRecvBufs_def)
next
  case (Cons x exch)
  obtain req r L S D where x: "x = (req, r, (L, S, D))" by (cases x) auto
  from Cons.prems(1) have ans: "haloAnswer d r req = Inr (L, S, D)"
    and small: "length L < 2 ^ 63" and wf: "exchange_wf d exch"
    by (simp_all add: exchange_wf_def x)
  from Cons.prems(2) have n: "length req div 3 < 2 ^ 63"
    and sl: "\<forall>s\<in>set (requestSlots req). unat s < length vol"
    by (simp_all add: x)
  from storeHaloRanks_answer [OF ans small n sl dim, of hp] obtain vol1 hp1
    where run1: "\<And>bufs. storeHaloRanks d dfltPoint ((L, S, D) # bufs) (vol, hp)
        = storeHaloRanks d dfltPoint bufs (vol1, hp1)"
      and len1: "length vol1 = length vol"
      and w1: "\<And>i. i \<in> unat ` set (requestSlots req) \<Longrightarrow> \<not> elemIsOwned (vol1 ! i)"
      and o1: "\<And>i. i \<notin> unat ` set (requestSlots req) \<Longrightarrow> vol1 ! i = vol ! i"
    by blast
  have rest: "\<forall>req\<in>set (map fst exch). length req div 3 < 2 ^ 63
           \<and> (\<forall>s\<in>set (requestSlots req). unat s < length vol1)"
    using Cons.prems(2) len1 by simp
  from Cons.IH [OF wf rest, of hp1] obtain vol' hp'
    where run: "storeHaloRanks d dfltPoint (haloRecvBufs exch) (vol1, hp1) = Inr (vol', hp')"
      and len: "length vol' = length vol1"
      and w: "\<And>i. i \<in> unat ` set (concat (map requestSlots (map fst exch)))
                \<Longrightarrow> \<not> elemIsOwned (vol' ! i)"
      and o: "\<And>i. i \<notin> unat ` set (concat (map requestSlots (map fst exch)))
                \<Longrightarrow> vol' ! i = vol1 ! i"
    by blast
  have split: "unat ` set (concat (map requestSlots (map fst (x # exch))))
      = unat ` set (requestSlots req) \<union> unat ` set (concat (map requestSlots (map fst exch)))"
    by (simp add: x image_Un)
  have "storeHaloRanks d dfltPoint (haloRecvBufs (x # exch)) (vol, hp) = Inr (vol', hp')"
    using run1 [of "haloRecvBufs exch"] run by (simp add: haloRecvBufs_def x)
  moreover have "length vol' = length vol" using len len1 by simp
  moreover have "\<forall>i\<in>unat ` set (concat (map requestSlots (map fst (x # exch)))).
      \<not> elemIsOwned (vol' ! i)"
    unfolding split
  proof
    fix i assume i: "i \<in> unat ` set (requestSlots req)
        \<union> unat ` set (concat (map requestSlots (map fst exch)))"
    show "\<not> elemIsOwned (vol' ! i)"
    proof (cases "i \<in> unat ` set (concat (map requestSlots (map fst exch)))")
      case True
      then show ?thesis by (rule w)
    next
      case False
      with i have "i \<in> unat ` set (requestSlots req)" by blast
      with o [OF False] w1 [of i] show ?thesis by simp
    qed
  qed
  moreover have "\<forall>i. i \<notin> unat ` set (concat (map requestSlots (map fst (x # exch))))
      \<longrightarrow> vol' ! i = vol ! i"
    unfolding split using o o1 by simp
  ultimately show ?case by blast
qed

lemma requestSlots_append3:
  assumes "3 dvd length b"
  shows "requestSlots (b @ [x, y, z]) = requestSlots b @ [z]"
proof -
  from assms obtain k where k: "length b = 3 * k" by (auto simp: dvd_def)
  have d: "length (b @ [x, y, z]) div 3 = Suc k" using k by simp
  have "map (\<lambda>j. (b @ [x, y, z]) ! (3 * j + 2)) [0..<k] = map (\<lambda>j. b ! (3 * j + 2)) [0..<k]"
    using k by (intro map_cong) (auto simp: nth_append)
  moreover have "(b @ [x, y, z]) ! (3 * k + 2) = z" using k by (simp add: nth_append)
  ultimately show ?thesis
    using k by (simp add: requestSlots_def d)
qed

lemma mset_concat_update:
  assumes "i < length xs"
  shows "mset (concat (map f (xs[i := y]))) + mset (f (xs ! i))
       = mset (concat (map f xs)) + mset (f y)"
proof -
  have "xs = take i xs @ xs ! i # drop (Suc i) xs" using assms by (rule id_take_nth_drop)
  then have "mset (concat (map f xs))
      = mset (concat (map f (take i xs))) + mset (f (xs ! i))
          + mset (concat (map f (drop (Suc i) xs)))"
    by (metis (no_types, lifting) concat.simps(2) concat_append list.simps(9) map_append
        mset_append union_assoc)
  moreover have "mset (concat (map f (xs[i := y])))
      = mset (concat (map f (take i xs))) + mset (f y)
          + mset (concat (map f (drop (Suc i) xs)))"
    using assms by (simp add: upd_conv_take_nth_drop)
  ultimately show ?thesis by simp
qed

lemma haloRequestLoop_slots:
  assumes "haloRequestLoop nE r2i mh hs bufs = Inr bufs'"
    and "\<forall>b\<in>set bufs. 3 dvd length b"
  shows "(\<forall>b\<in>set bufs'. 3 dvd length b)
       \<and> mset (concat (map requestSlots bufs'))
           = mset (concat (map requestSlots bufs)) + mset (map (\<lambda>h. of_nat (the (mh h))) hs)"
  using assms
proof (induction hs arbitrary: bufs)
  case Nil
  then show ?case by simp
next
  case (Cons h hs)
  from Cons.prems(1) obtain r ind slot where
    ind: "ind < length bufs" and slot: "mh h = Some slot"
    and rest: "haloRequestLoop nE r2i mh hs
        (bufs[ind := bufs ! ind @ [long0 h, long1 h - 1, of_nat slot]]) = Inr bufs'"
    by (auto split: sum.splits option.splits if_splits)
  let ?b = "bufs ! ind @ [long0 h, long1 h - 1, of_nat slot]"
  have d: "3 dvd length (bufs ! ind)" using Cons.prems(2) ind by simp
  have dv: "\<forall>b\<in>set (bufs[ind := ?b]). 3 dvd length b"
  proof
    fix b assume "b \<in> set (bufs[ind := ?b])"
    then have "b = ?b \<or> b \<in> set bufs" using set_update_subset_insert by fastforce
    moreover have "3 dvd length ?b"
    proof -
      have "length ?b = length (bufs ! ind) + 3" by simp
      with d show ?thesis by (simp only: dvd_add_triv_right_iff)
    qed
    ultimately show "3 dvd length b" using Cons.prems(2) by blast
  qed
  have "mset (concat (map requestSlots (bufs[ind := ?b]))) + mset (requestSlots (bufs ! ind))
      = mset (concat (map requestSlots bufs)) + mset (requestSlots ?b)"
    by (rule mset_concat_update [OF ind])
  then have up: "mset (concat (map requestSlots (bufs[ind := ?b])))
      = mset (concat (map requestSlots bufs)) + {#of_nat slot#}"
    by (simp add: requestSlots_append3 [OF d])
  from Cons.IH [OF rest dv] show ?case by (simp add: up slot)
qed

lemma requestSlots_Nil [simp]: "requestSlots [] = []"
  by (simp add: requestSlots_def)

lemma length_requestSlots [simp]: "length (requestSlots b) = length b div 3"
  by (simp add: requestSlots_def)

lemma concat_map_replicate_Nil:
  assumes "f [] = []"
  shows "concat (map f (replicate n [])) = []"
  using assms by (induction n) simp_all

lemma length_concat_member:
  assumes "x \<in> set xs"
  shows "length (f x) \<le> length (concat (map f xs))"
  using assms by (induction xs) auto

lemma mapGlobalHaloElemToInd_nth:
  assumes "distinct hs" and "i < length hs"
  shows "mapGlobalHaloElemToInd (allocateVolumeElements dflt gids hs) (hs ! i)
           = Some (length gids + i)"
  using fold_index_map_distinct [OF assms(1) le_refl assms(2),
      of "\<lambda>i. length gids + i" Map.empty]
  by (simp add: allocateVolumeElements_def Let_def)

lemma buildHaloRequests_slots:
  assumes req: "buildHaloRequests nRank nElemPerRankOr
           (mapGlobalHaloElemToInd (allocateVolumeElements dflt gids hs)) hs = Inr sendBufs"
    and dist: "distinct hs"
    and tot: "length gids + length hs < 2 ^ 63"
  shows "unat ` set (concat (map requestSlots sendBufs))
           = {length gids ..< length gids + length hs}"
    and "length (concat (map requestSlots sendBufs)) = length hs"
proof -
  let ?mh = "mapGlobalHaloElemToInd (allocateVolumeElements dflt gids hs)"
  from req obtain r2i n where
    loop: "haloRequestLoop nElemPerRankOr r2i ?mh hs (replicate n []) = Inr sendBufs"
    by (auto simp: buildHaloRequests_def split: sum.splits prod.splits)
  have dv: "\<forall>b\<in>set (replicate n ([] :: long list)). 3 dvd length b" by simp
  from haloRequestLoop_slots [OF loop dv]
  have m: "mset (concat (map requestSlots sendBufs))
      = mset (map (\<lambda>h. of_nat (the (?mh h))) hs)"
    by (simp add: concat_map_replicate_Nil)
  have mp: "map (\<lambda>h. of_nat (the (?mh h)) :: long) hs
      = map (\<lambda>i. of_nat (length gids + i)) [0..<length hs]"
    by (rule nth_equalityI) (simp_all add: mapGlobalHaloElemToInd_nth [OF dist])
  from m have "set (concat (map requestSlots sendBufs))
      = set (map (\<lambda>i. of_nat (length gids + i) :: long) [0..<length hs])"
    unfolding mp by (rule mset_eq_setD)
  then have "unat ` set (concat (map requestSlots sendBufs))
      = (\<lambda>i. unat (of_nat (length gids + i) :: long)) ` {0..<length hs}"
    by (simp add: image_image)
  also have "\<dots> = (\<lambda>i. length gids + i) ` {0..<length hs}"
  proof (rule image_cong [OF refl])
    fix i assume "i \<in> {0..<length hs}"
    then have "length gids + i < 2 ^ 64" using tot by simp
    then show "unat (of_nat (length gids + i) :: long) = length gids + i"
      by (rule unat_of_nat_long)
  qed
  also have "\<dots> = {length gids ..< length gids + length hs}"
    by (auto simp: image_iff)
  finally show "unat ` set (concat (map requestSlots sendBufs))
           = {length gids ..< length gids + length hs}" .
  from m have "size (mset (concat (map requestSlots sendBufs)))
      = size (mset (map (\<lambda>h. of_nat (the (?mh h)) :: long) hs))" by simp
  then show "length (concat (map requestSlots sendBufs)) = length hs"
    by (simp only: size_mset length_map)
qed

subsection \<open>The layout of volElem after the halo elements are stored\<close>

text \<open>
  Claim C10. The passage that copies the owned elements and the passage that stores
  the answers to the requests for halo elements both end normally, and afterwards
  \<^verbatim>\<open>volElem\<close> has \<^verbatim>\<open>nVolElemTot\<close> entries of which the first \<^verbatim>\<open>nVolElemOwned\<close>, one for
  every global ID of \<^verbatim>\<open>globalElemID\<close>, are owned: entry \<open>i\<close> has \<^verbatim>\<open>elemIsOwned\<close> true and
  the \<open>i\<close>-th smallest global element ID, so the IDs increase strictly with the
  position; every later entry has \<^verbatim>\<open>elemIsOwned\<close> false. The rest of the constructor
  writes only the node IDs of the entries. The ranks send every element to one rank,
  so the global IDs of the received elements are pairwise distinct; every request
  buffer is answered.
\<close>

theorem owned_slots_sorted_halo_slots_after:
  assumes wf: "received_wf nMarker meshDim received"
    and dist: "distinct (map GetGlobalElemID (receivedElements received))"
    and dim: "meshDim \<le> length (CPointFEM.coor dfltPoint)"
    and gid: "determineGlobalElemID nMarker (receivedLong received) (receivedShort received)
                = Inr (globalElemID, local_elem, local_node, nElem_Bound)"
    and halo: "determineHaloElements globalElemID (receivedLong received)
                (receivedShort received) = Inr haloElements"
    and lay: "lay = allocateVolumeElements dflt globalElemID haloElements"
    and tot: "nVolElemTot lay < 2 ^ 63"
    and req: "buildHaloRequests nRank nElemPerRankOr (mapGlobalHaloElemToInd lay) haloElements
                = Inr sendBufs"
    and exch: "exchange_wf meshDim exch"
    and sent: "mset (map fst exch) = mset sendBufs"
  shows "\<exists>v1 meshPoints boundaries v2 haloPoints.
      storeOwnedElements (mapGlobalElemIDToInd lay) rank meshDim nMarker dfltPoint
          (receivedLong received) (receivedShort received) (receivedDouble received)
          (volElem lay) = Inr (v1, meshPoints, boundaries)
    \<and> storeHaloRanks meshDim dfltPoint (haloRecvBufs exch) (v1, []) = Inr (v2, haloPoints)
    \<and> length v2 = nVolElemTot lay
    \<and> nVolElemOwned lay = length globalElemID
    \<and> (\<forall>i<nVolElemOwned lay. elemIsOwned (v2 ! i) \<and> elemIDGlobal (v2 ! i) = globalElemID ! i)
    \<and> (\<forall>i j. i < j \<and> j < nVolElemOwned lay
          \<longrightarrow> elemIDGlobal (v2 ! i) < elemIDGlobal (v2 ! j))
    \<and> (\<forall>i. nVolElemOwned lay \<le> i \<and> i < nVolElemTot lay \<longrightarrow> \<not> elemIsOwned (v2 ! i))"
proof -
  let ?es = "receivedElements received"
  have g: "globalElemID = std_sort (<) (map GetGlobalElemID ?es)"
    using gid by (simp add: determineGlobalElemID_received [OF wf])
  have h: "haloElements = dedupHaloElements
      (concat (map (halosOfElement globalElemID) ?es))"
    using halo by (simp add: determineHaloElements_received [OF wf])
  have dh: "distinct haloElements" unfolding h by (rule distinct_dedupHaloElements)
  have nO: "nVolElemOwned lay = length globalElemID"
    and nT: "nVolElemTot lay = length globalElemID + length haloElements"
    by (simp_all add: lay allocateVolumeElements_def Let_def)
  have sorted: "sorted_wrt (<) globalElemID"
    unfolding g by (rule sorted_owned_ids(1) [OF dist])
  from storeOwnedElements_layout [OF wf dist dim, of dflt haloElements rank]
  obtain v1 where
    run1: "storeOwnedElements (mapGlobalElemIDToInd lay) rank meshDim nMarker dfltPoint
             (receivedLong received) (receivedShort received) (receivedDouble received)
             (volElem lay)
           = Inr (v1, receivedMeshPoints meshDim dfltPoint received,
                  receivedBoundaries nMarker received)"
    and len1: "length v1 = length globalElemID + length haloElements"
    and own1: "\<And>i. i < length globalElemID
         \<Longrightarrow> elemIsOwned (v1 ! i) \<and> elemIDGlobal (v1 ! i) = globalElemID ! i"
    unfolding lay g by blast
  have tot': "length globalElemID + length haloElements < 2 ^ 63" using tot nT by simp
  note sl = buildHaloRequests_slots [OF req [unfolded lay] dh tot']
  have sets: "set (map fst exch) = set sendBufs" using sent by (rule mset_eq_setD)
  have slots: "unat ` set (concat (map requestSlots (map fst exch)))
      = {length globalElemID ..< length globalElemID + length haloElements}"
  proof -
    have "set (concat (map requestSlots (map fst exch)))
        = (\<Union>b\<in>set (map fst exch). set (requestSlots b))" by simp
    also have "\<dots> = (\<Union>b\<in>set sendBufs. set (requestSlots b))" by (simp only: sets)
    also have "\<dots> = set (concat (map requestSlots sendBufs))" by simp
    finally show ?thesis by (simp only: sl(1))
  qed
  have pre: "\<forall>req\<in>set (map fst exch). length req div 3 < 2 ^ 63
           \<and> (\<forall>s\<in>set (requestSlots req). unat s < length v1)"
  proof (intro ballI conjI)
    fix b assume b: "b \<in> set (map fst exch)"
    then have bs: "b \<in> set sendBufs" by (simp only: sets)
    have "length (requestSlots b) \<le> length (concat (map requestSlots sendBufs))"
      by (rule length_concat_member [OF bs])
    then show "length b div 3 < 2 ^ 63" using sl(2) tot' by simp
    fix s assume "s \<in> set (requestSlots b)"
    with b have "s \<in> set (concat (map requestSlots (map fst exch)))" by auto
    then have "unat s \<in> unat ` set (concat (map requestSlots (map fst exch)))"
      by (rule imageI)
    then show "unat s < length v1" by (simp only: slots len1 atLeastLessThan_iff)
  qed
  from storeHaloRanks_exchange [OF exch pre dim, of "[]"] obtain v2 hp where
    run2: "storeHaloRanks meshDim dfltPoint (haloRecvBufs exch) (v1, []) = Inr (v2, hp)"
    and len2: "length v2 = length v1"
    and w2: "\<And>i. i \<in> {length globalElemID ..< length globalElemID + length haloElements}
         \<Longrightarrow> \<not> elemIsOwned (v2 ! i)"
    and o2: "\<And>i. i \<notin> {length globalElemID ..< length globalElemID + length haloElements}
         \<Longrightarrow> v2 ! i = v1 ! i"
    unfolding slots by blast
  have own2: "elemIsOwned (v2 ! i) \<and> elemIDGlobal (v2 ! i) = globalElemID ! i"
    if "i < length globalElemID" for i
    using own1 [OF that] o2 [of i] that by simp
  have incr: "elemIDGlobal (v2 ! i) < elemIDGlobal (v2 ! j)"
    if "i < j" and "j < length globalElemID" for i j
  proof -
    from that have "i < length globalElemID" by simp
    with own2 [of i] own2 [OF that(2)] sorted that show ?thesis
      by (simp add: sorted_wrt_iff_nth_less)
  qed
  have halo2: "\<not> elemIsOwned (v2 ! i)"
    if "length globalElemID \<le> i" and "i < length globalElemID + length haloElements" for i
    using w2 [of i] that by simp
  show ?thesis
    using run1 run2 len2 len1 own2 incr halo2 by (simp add: nO nT)
qed


text \<open>Witness for C10, on the example grid: the rank receives the elements 10 and 11
  and asks the rank that held them for the halo \<open>(10, 1)\<close>, which goes to position 2.\<close>

theorem owned_slots_sorted_halo_slots_after_witness:
  "received_wf 1 3 exampleReceived
   \<and> distinct (map GetGlobalElemID (receivedElements exampleReceived))
   \<and> determineGlobalElemID 1 (receivedLong exampleReceived) (receivedShort exampleReceived)
      = Inr ([10, 11], 2, 3, [1])
   \<and> determineHaloElements [10, 11]
        (receivedLong exampleReceived) (receivedShort exampleReceived)
      = Inr [\<lparr>long0 = 10, long1 = 1\<rparr>]
   \<and> buildHaloRequests 2 [0, 10, 12]
        (mapGlobalHaloElemToInd
          (allocateVolumeElements zeroVolumeElement [10, 11] [\<lparr>long0 = 10, long1 = 1\<rparr>]))
        [\<lparr>long0 = 10, long1 = 1\<rparr>]
      = Inr [[10, 0, 2]]
   \<and> haloAnswer 3 exampleAnswering [10, 0, 2]
      = Inr ([1, 10, 2, 0, 20, 21, 2, 20, 21], [0, 3, 1, 1, 2, 2, 2, 0, 0],
             [0, 0, 0, 1, 0, 0])
   \<and> (\<exists>v1 meshPoints boundaries v2 haloPoints.
        storeOwnedElements
          (mapGlobalElemIDToInd
            (allocateVolumeElements zeroVolumeElement [10, 11] [\<lparr>long0 = 10, long1 = 1\<rparr>]))
          1 3 1 zeroPoint
          (receivedLong exampleReceived) (receivedShort exampleReceived)
          (receivedDouble exampleReceived)
          (volElem
            (allocateVolumeElements zeroVolumeElement [10, 11] [\<lparr>long0 = 10, long1 = 1\<rparr>]))
          = Inr (v1, meshPoints, boundaries)
      \<and> storeHaloRanks 3 zeroPoint
          [([1, 10, 2, 0, 20, 21, 2, 20, 21], [0, 3, 1, 1, 2, 2, 2, 0, 0],
            [0, 0, 0, 1, 0, 0])] (v1, []) = Inr (v2, haloPoints)
      \<and> length v2 = 3
      \<and> elemIsOwned (v2 ! 0) \<and> elemIDGlobal (v2 ! 0) = 10
      \<and> elemIsOwned (v2 ! 1) \<and> elemIDGlobal (v2 ! 1) = 11
      \<and> \<not> elemIsOwned (v2 ! 2))"
proof -
  let ?lay = "allocateVolumeElements zeroVolumeElement [10, 11] [\<lparr>long0 = 10, long1 = 1\<rparr>]"
  let ?ans = "([1, 10, 2, 0, 20, 21, 2, 20, 21], [0, 3, 1, 1, 2, 2, 2, 0, 0],
      [0, 0, 0, 1, 0, 0]) :: long list \<times> short list \<times> real list"
  let ?exch = "[([10, 0, 2], exampleAnswering, ?ans)] :: halo_exchange list"
  have wf: "received_wf 1 3 exampleReceived"
    by (simp add: received_wf_def received_rank_wf_def exampleReceived_def
        packElementsLong_def packElementLong_def packNodesLong_def packMarkersLong_def
        packBoundLong_def exampleElem10_def exampleElem11_def exampleBound_def)
  have es: "receivedElements exampleReceived = [exampleElem10, exampleElem11]"
    by (simp add: receivedElements_def exampleReceived_def)
  have dist: "distinct (map GetGlobalElemID (receivedElements exampleReceived))"
    by (simp add: es exampleElem10_def exampleElem11_def)
  have gid: "determineGlobalElemID 1 (receivedLong exampleReceived)
      (receivedShort exampleReceived) = Inr ([10, 11], 2, 3, [1])"
  proof -
    have "(std_sort (<) (map GetGlobalElemID (receivedElements exampleReceived)),
        receivedLocalElem exampleReceived, receivedLocalNode exampleReceived,
        receivedElemBound 1 exampleReceived) = ([10, 11], 2, 3, [1])"
      by (simp add: es std_sort_def exampleElem10_def exampleElem11_def)
        (simp add: receivedLocalElem_def receivedLocalNode_def
          receivedElemBound_def addBoundCounts_def exampleReceived_def)
    with determineGlobalElemID_received [OF wf] show ?thesis by simp
  qed
  have h10: "halosOfElement [10, 11] exampleElem10 = []"
    by (simp add: halosOfElement_def exampleElem10_def upt_0_2 face_is_halo_def
        std_binary_search_example)
  have h11: "halosOfElement [10, 11] exampleElem11 = [\<lparr>long0 = 10, long1 = 1\<rparr>]"
    by (simp add: halosOfElement_def exampleElem11_def upt_0_2 face_is_halo_def
        std_binary_search_example haloDescriptor_def)
  have halo: "determineHaloElements [10, 11]
      (receivedLong exampleReceived) (receivedShort exampleReceived)
      = Inr [\<lparr>long0 = 10, long1 = 1\<rparr>]"
  proof -
    have "dedupHaloElements (concat (map (halosOfElement [10, 11])
        (receivedElements exampleReceived))) = [\<lparr>long0 = 10, long1 = 1\<rparr>]"
      by (simp add: es h10 h11 dedupHaloElements_def std_sort_def)
    with determineHaloElements_received [OF wf, of "[10, 11]"] show ?thesis by simp
  qed
  have dim: "3 \<le> length (CPointFEM.coor zeroPoint)" by (simp add: zeroPoint_def)
  have tot: "nVolElemTot ?lay < 2 ^ 63"
    by (simp add: allocateVolumeElements_def Let_def)
  have slot: "mapGlobalHaloElemToInd ?lay \<lparr>long0 = 10, long1 = 1\<rparr> = Some 2"
    by (simp add: allocateVolumeElements_def Let_def)
  have low: "std_lower_bound (<) [0, 10, 12 :: ulong] 10 0 (Suc (Suc (Suc 0))) = 1"
    by (simp add: std_lower_bound.simps Let_def)
  have rk: "rankOfHalo [0, 10, 12] \<lparr>long0 = 10, long1 = 1\<rparr> = Inr 1"
    by (simp add: rankOfHalo_def low rd_def Let_def)
  have req: "buildHaloRequests 2 [0, 10, 12] (mapGlobalHaloElemToInd ?lay)
      [\<lparr>long0 = 10, long1 = 1\<rparr>] = Inr [[10, 0, 2]]"
    by (simp add: buildHaloRequests_def rk rankToIndCommBuf_of_def upt_0_2 slot
        numeral_2_eq_2)
  have ar: "answerHaloRequests exampleGeometry [10, 0, 2]
      = Inr \<lparr>shortSendBuf = [0, 3, 1, 1, 2, 2, 2], longSendBuf = [1, 10, 2, 0, 20, 21],
             nodeIDs = [\<lparr>long0 = 20, long1 = 1\<rparr>, \<lparr>long0 = 21, long1 = 1\<rparr>]\<rparr>"
    by (simp add: answerHaloRequests_def answerHaloElement_def Let_def locElemInd_of_def
        locElemInd_invalid_def exampleGeometry_def exampleElem10_def upt_0_2
        word_le_nat_alt)
  have dd: "dedupHaloElements [\<lparr>long0 = 20, long1 = 1\<rparr>, \<lparr>long0 = 21, long1 = 1\<rparr>]
      = [\<lparr>long0 = 20, long1 = 1\<rparr>, \<lparr>long0 = 21, long1 = 1\<rparr>]"
    by (simp add: dedupHaloElements_def std_sort_def unsignedLong2T_less_def
        unsignedLong2T_eq_def)
  have ans: "haloAnswer 3 exampleAnswering [10, 0, 2] = Inr ?ans"
    by (simp add: haloAnswer_def exampleAnswering_def ar answerHaloPoints_def dd
        upt_conv_Cons)
  have exch: "exchange_wf 3 ?exch" by (simp add: exchange_wf_def ans)
  have sent: "mset (map fst ?exch) = mset [[10, 0, 2 :: long]]" by simp
  from owned_slots_sorted_halo_slots_after [OF wf dist dim gid halo refl tot req exch sent,
      of 1]
  obtain v1 mp bd v2 hp where
    r1: "storeOwnedElements (mapGlobalElemIDToInd ?lay) 1 3 1 zeroPoint
          (receivedLong exampleReceived) (receivedShort exampleReceived)
          (receivedDouble exampleReceived) (volElem ?lay) = Inr (v1, mp, bd)"
    and r2: "storeHaloRanks 3 zeroPoint (haloRecvBufs ?exch) (v1, []) = Inr (v2, hp)"
    and len: "length v2 = nVolElemTot ?lay"
    and nO: "nVolElemOwned ?lay = length [10, 11 :: ulong]"
    and own: "\<And>i. i < nVolElemOwned ?lay
        \<Longrightarrow> elemIsOwned (v2 ! i) \<and> elemIDGlobal (v2 ! i) = [10, 11] ! i"
    and hal: "\<And>i. nVolElemOwned ?lay \<le> i \<and> i < nVolElemTot ?lay
        \<Longrightarrow> \<not> elemIsOwned (v2 ! i)"
    by blast
  have nT: "nVolElemTot ?lay = 3" by (simp add: allocateVolumeElements_def Let_def)
  have r2': "storeHaloRanks 3 zeroPoint [?ans] (v1, []) = Inr (v2, hp)"
    using r2 by (simp add: haloRecvBufs_def)
  have o0: "elemIsOwned (v2 ! 0) \<and> elemIDGlobal (v2 ! 0) = 10"
    using own [of 0] nO by simp
  have o1: "elemIsOwned (v2 ! 1) \<and> elemIDGlobal (v2 ! 1) = 11"
    using own [of 1] nO by simp
  have o2: "\<not> elemIsOwned (v2 ! 2)"
    using hal [of 2] nO nT by simp
  from r1 r2' len nT o0 o1 o2
  have "\<exists>v1 meshPoints boundaries v2 haloPoints.
        storeOwnedElements (mapGlobalElemIDToInd ?lay) 1 3 1 zeroPoint
          (receivedLong exampleReceived) (receivedShort exampleReceived)
          (receivedDouble exampleReceived) (volElem ?lay)
          = Inr (v1, meshPoints, boundaries)
      \<and> storeHaloRanks 3 zeroPoint [?ans] (v1, []) = Inr (v2, haloPoints)
      \<and> length v2 = 3
      \<and> elemIsOwned (v2 ! 0) \<and> elemIDGlobal (v2 ! 0) = 10
      \<and> elemIsOwned (v2 ! 1) \<and> elemIDGlobal (v2 ! 1) = 11
      \<and> \<not> elemIsOwned (v2 ! 2)"
    by (intro exI [of _ v1] exI [of _ mp] exI [of _ bd] exI [of _ v2] exI [of _ hp]) simp
  with wf dist gid halo req ans show ?thesis by blast
qed

subsection \<open>The conversion of the global node IDs\<close>

lemma translateNodesLoop_failure:
  "translateNodesLoop m per1 js ns = Inl f \<Longrightarrow> f = Undefined"
  by (induction js arbitrary: ns)
    (auto simp: rd_def split: sum.splits option.splits if_splits)

lemma convertSurfElem_failure:
  "convertSurfElem me m s = Inl f \<Longrightarrow> f = Undefined"
  by (auto simp: convertSurfElem_def dest: translateNodesLoop_failure
      split: option.splits sum.splits)

lemma convertSurfLoop_failure:
  "convertSurfLoop me m ss = Inl f \<Longrightarrow> f = Undefined"
  by (induction ss arbitrary: f)
    (auto dest: convertSurfElem_failure split: sum.splits)

lemma convertBoundaries_failure:
  "convertBoundaries me m bs = Inl f \<Longrightarrow> f = Undefined"
  by (induction bs arbitrary: f)
    (auto dest: convertSurfLoop_failure split: sum.splits)

lemma translateVolElem_failure:
  "translateVolElem m v = Inl f \<Longrightarrow> f = Undefined"
  by (auto simp: translateVolElem_def dest: translateNodesLoop_failure split: sum.splits)

lemma translateVolumeNodes_failure:
  "translateVolumeNodes m vol = Inl f \<Longrightarrow> f = Undefined"
  by (induction vol arbitrary: f)
    (auto dest: translateVolElem_failure split: sum.splits)

lemma resolveNonPeriodicHalos_Nil:
  "resolveNonPeriodicHalos G mesh [] = (mesh, [])"
proof -
  have d: "dedupPoints [] = []" by (simp add: dedupPoints_def std_sort_def)
  have i: "invalidateLoop mesh G [] 0 0 = ([], 0)"
    by (subst invalidateLoop.simps) simp
  have a: "addNonPeriodicLoop [] mesh 0 = mesh"
    by (subst addNonPeriodicLoop.simps) simp
  show ?thesis
    by (simp add: resolveNonPeriodicHalos_def d i a std_sort_def)
qed


text \<open>
  Claim C1. The two loops that convert the global node IDs, of the surface elements of
  the boundaries and of all volume elements, look every ID up in
  \<^verbatim>\<open>mapGlobalPointIDToInd\<close> and use the iterator without comparing it with \<^verbatim>\<open>end()\<close>:
  whatever the map and the elements are, neither loop ends with a diagnostic, and an ID
  that is not in the map makes the behaviour undefined. This happens for the grid of
  one element with the nodes 20 and 21 whose boundary element names the node 99: the
  buffers of the first exchange are read and copied normally, there are no halo
  elements and no halo points, the map holds the two points, and the conversion of the
  boundary element is undefined. (The lookups of node IDs in \<^verbatim>\<open>globalPointIDToLocalInd\<close>
  are tested in the same constructor, and end with a diagnostic.)
\<close>

theorem final_translation_miss_is_not_fatal:
  "translateNodesLoop mapPointIDToInd perIndex1 js nodeIDs' \<noteq> Inl (Fatal msg)
   \<and> convertBoundaries mapElemIDToInd mapPointIDToInd boundaries \<noteq> Inl (Fatal msg)
   \<and> translateVolumeNodes mapPointIDToInd vol \<noteq> Inl (Fatal msg)
   \<and> received_wf 1 3 exampleReceivedStray
   \<and> determineGlobalElemID 1 (receivedLong exampleReceivedStray)
        (receivedShort exampleReceivedStray) = Inr ([10], 1, 2, [1])
   \<and> determineHaloElements [10] (receivedLong exampleReceivedStray)
        (receivedShort exampleReceivedStray) = Inr []
   \<and> storeOwnedElements (mapGlobalElemIDToInd (allocateVolumeElements zeroVolumeElement [10] [])) 0 3 1 zeroPoint
        (receivedLong exampleReceivedStray) (receivedShort exampleReceivedStray)
        (receivedDouble exampleReceivedStray) (volElem (allocateVolumeElements zeroVolumeElement [10] []))
      = Inr ([ownedVolumeElement 0 exampleElemAlone zeroVolumeElement],
             [\<lparr>globalID = 20, periodIndexToDonor = - 1, CPointFEM.coor = [0, 0, 0]\<rparr>,
              \<lparr>globalID = 21, periodIndexToDonor = - 1, CPointFEM.coor = [1, 0, 0]\<rparr>],
             [[\<lparr>CSurfaceElementFEM.VTK_Type = 1, CSurfaceElementFEM.nPolyGrid = 1,
              CSurfaceElementFEM.nDOFsGrid = 1, volElemID = 10, boundElemIDGlobal = 0,
              CSurfaceElementFEM.nodeIDsGrid = [99]\<rparr>]])
   \<and> dedupPoints
        [\<lparr>globalID = 20, periodIndexToDonor = - 1, CPointFEM.coor = [0, 0, 0]\<rparr>,
         \<lparr>globalID = 21, periodIndexToDonor = - 1, CPointFEM.coor = [1, 0, 0]\<rparr>]
      = [\<lparr>globalID = 20, periodIndexToDonor = - 1, CPointFEM.coor = [0, 0, 0]\<rparr>,
         \<lparr>globalID = 21, periodIndexToDonor = - 1, CPointFEM.coor = [1, 0, 0]\<rparr>]
   \<and> resolveNonPeriodicHalos Global_nPoint
        [\<lparr>globalID = 20, periodIndexToDonor = - 1, CPointFEM.coor = [0, 0, 0]\<rparr>,
         \<lparr>globalID = 21, periodIndexToDonor = - 1, CPointFEM.coor = [1, 0, 0]\<rparr>] []
      = ([\<lparr>globalID = 20, periodIndexToDonor = - 1, CPointFEM.coor = [0, 0, 0]\<rparr>,
          \<lparr>globalID = 21, periodIndexToDonor = - 1, CPointFEM.coor = [1, 0, 0]\<rparr>], [])
   \<and> convertBoundaries (mapGlobalElemIDToInd (allocateVolumeElements zeroVolumeElement [10] []))
        (buildPointMap
          [\<lparr>globalID = 20, periodIndexToDonor = - 1, CPointFEM.coor = [0, 0, 0]\<rparr>,
           \<lparr>globalID = 21, periodIndexToDonor = - 1, CPointFEM.coor = [1, 0, 0]\<rparr>])
        [[\<lparr>CSurfaceElementFEM.VTK_Type = 1, CSurfaceElementFEM.nPolyGrid = 1,
              CSurfaceElementFEM.nDOFsGrid = 1, volElemID = 10, boundElemIDGlobal = 0,
              CSurfaceElementFEM.nodeIDsGrid = [99]\<rparr>]]
      = Inl Undefined"
proof -
  let ?lay = "(allocateVolumeElements zeroVolumeElement [10] [])"
  let ?mp = "[\<lparr>globalID = 20, periodIndexToDonor = - 1, CPointFEM.coor = [0, 0, 0]\<rparr>,
      \<lparr>globalID = 21, periodIndexToDonor = - 1, CPointFEM.coor = [1, 0, 0]\<rparr>]"
  let ?bd = "[[\<lparr>CSurfaceElementFEM.VTK_Type = 1, CSurfaceElementFEM.nPolyGrid = 1,
              CSurfaceElementFEM.nDOFsGrid = 1, volElemID = 10, boundElemIDGlobal = 0,
              CSurfaceElementFEM.nodeIDsGrid = [99]\<rparr>]]"
  have n1: "translateNodesLoop mapPointIDToInd perIndex1 js nodeIDs' \<noteq> Inl (Fatal msg)"
    using translateNodesLoop_failure by fastforce
  have n2: "convertBoundaries mapElemIDToInd mapPointIDToInd boundaries \<noteq> Inl (Fatal msg)"
    using convertBoundaries_failure by fastforce
  have n3: "translateVolumeNodes mapPointIDToInd vol \<noteq> Inl (Fatal msg)"
    using translateVolumeNodes_failure by fastforce
  have wf: "received_wf 1 3 exampleReceivedStray"
    by (simp add: received_wf_def received_rank_wf_def exampleReceivedStray_def
        packElementsLong_def packElementLong_def packNodesLong_def packMarkersLong_def
        packBoundLong_def exampleElemAlone_def exampleBoundStray_def)
  have es: "receivedElements exampleReceivedStray = [exampleElemAlone]"
    by (simp add: receivedElements_def exampleReceivedStray_def)
  have gid: "determineGlobalElemID 1 (receivedLong exampleReceivedStray)
        (receivedShort exampleReceivedStray) = Inr ([10], 1, 2, [1])"
  proof -
    have "(std_sort (<) (map GetGlobalElemID (receivedElements exampleReceivedStray)),
        receivedLocalElem exampleReceivedStray, receivedLocalNode exampleReceivedStray,
        receivedElemBound 1 exampleReceivedStray) = ([10], 1, 2, [1])"
      by (simp add: es std_sort_def exampleElemAlone_def)
        (simp add: receivedLocalElem_def receivedLocalNode_def
          receivedElemBound_def addBoundCounts_def exampleReceivedStray_def)
    with determineGlobalElemID_received [OF wf] show ?thesis by simp
  qed
  have halo: "determineHaloElements [10] (receivedLong exampleReceivedStray)
        (receivedShort exampleReceivedStray) = Inr []"
  proof -
    have "halosOfElement [10] exampleElemAlone = []"
      by (simp add: halosOfElement_def exampleElemAlone_def upt_0_2 face_is_halo_def)
    then have "dedupHaloElements (concat (map (halosOfElement [10])
        (receivedElements exampleReceivedStray))) = []"
      by (simp add: es dedupHaloElements_def std_sort_def)
    with determineHaloElements_received [OF wf, of "[10]"] show ?thesis by simp
  qed
  have m10: "mapGlobalElemIDToInd ?lay 10 = Some 0"
    by (simp add: allocateVolumeElements_def Let_def)
  have vol0: "volElem ?lay = [zeroVolumeElement]"
    by (simp add: allocateVolumeElements_def Let_def)
  have inmap: "\<forall>e\<in>set (receivedElements exampleReceivedStray).
      \<exists>ind. mapGlobalElemIDToInd ?lay (GetGlobalElemID e) = Some ind
        \<and> ind < length (volElem ?lay)"
    by (simp add: es vol0 m10 exampleElemAlone_def)
  have dim: "3 \<le> length (CPointFEM.coor zeroPoint)" by (simp add: zeroPoint_def)
  have B: "length (replicate 1 ([] :: CSurfaceElementFEM list)) = 1" by simp
  have gide: "GetGlobalElemID exampleElemAlone = 10" by (simp add: exampleElemAlone_def)
  have pts: "receivedMeshPoints 3 zeroPoint exampleReceivedStray = ?mp"
    by (simp add: receivedMeshPoints_def exampleReceivedStray_def receivedPoint_def
        zeroPoint_def)
  have bds: "fold (\<lambda>(es, nodes, bounds) boundaries. addSurfElems boundaries bounds)
      exampleReceivedStray [[]] = ?bd"
    by (simp add: exampleReceivedStray_def addSurfElems_def receivedSurfElem_def
        exampleBoundStray_def)
  from storeOwnedRanks_received [OF wf inmap dim B, of 0 "[]"]
  have store: "storeOwnedElements (mapGlobalElemIDToInd ?lay) 0 3 1 zeroPoint
        (receivedLong exampleReceivedStray) (receivedShort exampleReceivedStray)
        (receivedDouble exampleReceivedStray) (volElem ?lay)
      = Inr ([ownedVolumeElement 0 exampleElemAlone zeroVolumeElement], ?mp, ?bd)"
    by (simp add: storeOwnedElements_def es vol0 gide m10 pts bds)
  have dd: "dedupPoints ?mp = ?mp"
    by (simp add: dedupPoints_def std_sort_def CPointFEM_less_def CPointFEM_eq_def)
  have res: "resolveNonPeriodicHalos Global_nPoint ?mp [] = (?mp, [])"
    by (rule resolveNonPeriodicHalos_Nil)
  have miss: "buildPointMap ?mp \<lparr>long0 = 99, long1 = 0\<rparr> = None"
    by (simp add: buildPointMap_def upt_0_2)
  have conv: "convertBoundaries (mapGlobalElemIDToInd ?lay) (buildPointMap ?mp) ?bd
      = Inl Undefined"
    by (simp add: convertSurfElem_def m10 rd_def miss)
  from n1 n2 n3 wf gid halo store dd res conv show ?thesis by blast
qed

end
